theory Spec2Isabelle
  imports Complex_Main "HOL-Library.Word"
begin

unbundle bit_operations_syntax

section \<open>Bytes and buffers\<close>

text \<open>
  A \<^verbatim>\<open>uint8_t\<close> is an 8-bit word and a \<^verbatim>\<open>std::vector<uint8_t>\<close> a list of them.
  Indices and sizes (\<^verbatim>\<open>size_t\<close>) are natural numbers: every index the loops below form
  is at most the buffer length plus the loop's stride, far from the 64-bit limit for any
  buffer that fits in memory.
\<close>

type_synonym byte = "8 word"

section \<open>The gRPC service (image\_service.cc)\<close>

subsection \<open>ImageServiceImpl::processImageData\<close>

text \<open>
  The \<^verbatim>\<open>invert\<close> loop:
  \<^verbatim>\<open>for (size_t i = 0; i < output.size(); ++i) output[i] = 255 - output[i];\<close>
  The subtraction is done on \<^verbatim>\<open>int\<close> (integer promotion) and converted back to
  \<^verbatim>\<open>uint8_t\<close>.
\<close>

function invert_loop :: "nat \<Rightarrow> byte list \<Rightarrow> byte list" where
  "invert_loop i output =
     (if i < length output
      then invert_loop (i + 1) (output[i := word_of_int (255 - uint (output ! i))])
      else output)"
  by pat_completeness auto
termination
  by (relation "measure (\<lambda>(i, output). length output - i)") auto

declare invert_loop.simps [simp del]

text \<open>
  The \<^verbatim>\<open>grayscale\<close> loop:
  \<^verbatim>\<open>
  for (size_t i = 0; i < output.size(); i += 3) {
      if (i + 2 < output.size()) {
          uint8_t gray = (output[i] + output[i + 1] + output[i + 2]) / 3;
          output[i] = output[i + 1] = output[i + 2] = gray;
      }
  }
  \<close>
  The sum and the division are \<^verbatim>\<open>int\<close> arithmetic on non-negative values.
\<close>

function grayscale_loop :: "nat \<Rightarrow> byte list \<Rightarrow> byte list" where
  "grayscale_loop i output =
     (if i < length output
      then grayscale_loop (i + 3)
             (if i + 2 < length output
              then (let gray = (word_of_int
                          ((uint (output ! i) + uint (output ! (i + 1)) + uint (output ! (i + 2))) div 3) :: byte)
                    in output[i + 2 := gray, i + 1 := gray, i := gray])
              else output)
      else output)"
  by pat_completeness auto
termination
  by (relation "measure (\<lambda>(i, output). length output - i)") (auto simp: Let_def)

declare grayscale_loop.simps [simp del]

text \<open>
  The dispatcher of the service. The second component of the result is what the call
  writes to \<^verbatim>\<open>std::cout\<close>, one entry per line.
\<close>

definition ImageServiceImpl_processImageData :: "byte list \<Rightarrow> string \<Rightarrow> byte list \<times> string list" where
  "ImageServiceImpl_processImageData input operation =
     (let output = input in
      if operation = ''invert'' then (invert_loop 0 output, [])
      else if operation = ''grayscale'' then (grayscale_loop 0 output, [])
      else if operation = ''noop'' then (output, [])
      else (output, [''Unknown operation: '' @ operation]))"


subsection \<open>The service's metrics and its three handlers\<close>

text \<open>
  \<^verbatim>\<open>struct ServiceMetrics\<close>. A \<^verbatim>\<open>double\<close> is modelled by a real number: the arithmetic
  below is exact, and what the machine computes differs from it by rounding only. A
  \<^verbatim>\<open>std::map<std::string, uint64_t>\<close> is a partial map; \<^verbatim>\<open>operator[]\<close> on a missing key
  inserts the value 0 first. The mutex that guards every access makes each handler's
  metrics block one atomic step; the model runs the handlers one after the other.
\<close>

record ServiceMetrics =
  total_processed :: "64 word"
  average_processing_time :: real
  active_connections :: "64 word"
  operation_counts :: "string \<rightharpoonup> 64 word"

definition ServiceMetrics_init :: ServiceMetrics where
  "ServiceMetrics_init =
     \<lparr>total_processed = 0, average_processing_time = 0, active_connections = 0,
      operation_counts = Map.empty\<rparr>"

text \<open>The protobuf messages; a field \<open>f\<close> of a request or response is named after its message.\<close>

record ImageRequest =
  request_image_data :: "byte list"
  request_operation :: string

record ImageResponse =
  response_processed_data :: "byte list"
  response_status :: string
  response_processing_time :: real

record BatchResponse =
  batch_responses :: "ImageResponse list"
  batch_total_time :: real

record MetricsResponse =
  response_total_processed :: "64 word"
  response_average_processing_time :: real
  response_active_connections :: "64 word"
  response_operation_counts :: "string \<rightharpoonup> 64 word"

text \<open>
  The block under \<^verbatim>\<open>// Update metrics\<close>, the same text in \<^verbatim>\<open>ProcessImage\<close> and in
  \<^verbatim>\<open>BatchProcess\<close>:
  \<^verbatim>\<open>
  metrics_.total_processed++;
  metrics_.average_processing_time =
      (metrics_.average_processing_time * (metrics_.total_processed - 1) + processing_time)
        / metrics_.total_processed;
  metrics_.operation_counts[operation]++;
  \<close>
  The counter wraps at \<open>2^64\<close>; its value is converted to \<^verbatim>\<open>double\<close> for the product and
  the quotient. (Where the counter has wrapped to 0 the machine divides by 0.0; the model's
  quotient is then 0. No theorem below reaches that state.)
\<close>

definition ImageServiceImpl_update_metrics :: "ServiceMetrics \<Rightarrow> string \<Rightarrow> real \<Rightarrow> ServiceMetrics" where
  "ImageServiceImpl_update_metrics m operation processing_time =
     (let n = ServiceMetrics.total_processed m + 1 in
      m\<lparr>ServiceMetrics.total_processed := n,
        average_processing_time :=
          (average_processing_time m * real (unat (n - 1)) + processing_time) / real (unat n),
        operation_counts :=
          (operation_counts m)(operation \<mapsto>
             (case operation_counts m operation of None \<Rightarrow> 0 | Some c \<Rightarrow> c) + 1)\<rparr>)"

text \<open>
  \<^verbatim>\<open>ProcessImage(context, request, response)\<close>: the handler fills the response it is given
  and updates the metrics; \<open>processing_time\<close> is what the clock measured. The status
  returned is always \<^verbatim>\<open>Status::OK\<close>.
\<close>

definition ImageServiceImpl_ProcessImage ::
  "ServiceMetrics \<Rightarrow> ImageRequest \<Rightarrow> ImageResponse \<Rightarrow> real \<Rightarrow> ImageResponse \<times> ServiceMetrics" where
  "ImageServiceImpl_ProcessImage m request response processing_time =
     (let input = request_image_data request;
          operation = request_operation request;
          result = fst (ImageServiceImpl_processImageData input operation)
      in (response\<lparr>response_processed_data := result, response_status := ''success'',
                    response_processing_time := processing_time\<rparr>,
          ImageServiceImpl_update_metrics m operation processing_time))"

text \<open>
  \<^verbatim>\<open>BatchProcess\<close>: one response is appended and one metrics update made per request of
  the batch, in order; each request comes with its measured time.
\<close>

fun BatchProcess_loop ::
  "ServiceMetrics \<Rightarrow> (ImageRequest \<times> real) list \<Rightarrow> BatchResponse \<Rightarrow> BatchResponse \<times> ServiceMetrics" where
  "BatchProcess_loop m [] response = (response, m)"
| "BatchProcess_loop m ((image_request, processing_time) # requests) response =
     (let input = request_image_data image_request;
          operation = request_operation image_request;
          result = fst (ImageServiceImpl_processImageData input operation);
          image_response = \<lparr>response_processed_data = result, response_status = ''success'',
                             response_processing_time = processing_time\<rparr>
      in BatchProcess_loop (ImageServiceImpl_update_metrics m operation processing_time) requests
           (response\<lparr>batch_responses := batch_responses response @ [image_response]\<rparr>))"

definition ImageServiceImpl_BatchProcess ::
  "ServiceMetrics \<Rightarrow> (ImageRequest \<times> real) list \<Rightarrow> BatchResponse \<Rightarrow> real \<Rightarrow> BatchResponse \<times> ServiceMetrics" where
  "ImageServiceImpl_BatchProcess m requests response total_time =
     (case BatchProcess_loop m requests response of
        (response', m') \<Rightarrow> (response'\<lparr>batch_total_time := total_time\<rparr>, m'))"

text \<open>
  \<^verbatim>\<open>GetMetrics(context, request, response)\<close>: every field is copied by value into the
  response, every entry of the map into the response's map.
\<close>

definition ImageServiceImpl_GetMetrics :: "ServiceMetrics \<Rightarrow> MetricsResponse \<Rightarrow> MetricsResponse \<times> ServiceMetrics" where
  "ImageServiceImpl_GetMetrics m response =
     (response\<lparr>response_total_processed := ServiceMetrics.total_processed m,
                response_average_processing_time := average_processing_time m,
                response_active_connections := active_connections m,
                response_operation_counts := response_operation_counts response ++ operation_counts m\<rparr>,
      m)"

text \<open>
  The server: the service object and the response messages of the calls in flight or
  answered, by address. A handler writes through the response pointer it is given and to
  \<^verbatim>\<open>metrics_\<close>, and nowhere else; a pointer to an \<^verbatim>\<open>ImageResponse\<close> is never a pointer to a
  \<^verbatim>\<open>MetricsResponse\<close>, so the two kinds of message have stores of their own.
\<close>

record server =
  service_metrics :: ServiceMetrics
  image_responses :: "nat \<Rightarrow> ImageResponse"
  batch_responses_at :: "nat \<Rightarrow> BatchResponse"
  metrics_responses :: "nat \<Rightarrow> MetricsResponse"

datatype rpc =
    RpcProcessImage ImageRequest nat real
  | RpcBatchProcess "(ImageRequest \<times> real) list" nat real
  | RpcGetMetrics nat

fun serve :: "server \<Rightarrow> rpc \<Rightarrow> server" where
  "serve s (RpcProcessImage request response processing_time) =
     (case ImageServiceImpl_ProcessImage (service_metrics s) request (image_responses s response) processing_time of
        (r, m) \<Rightarrow> s\<lparr>service_metrics := m, image_responses := (image_responses s)(response := r)\<rparr>)"
| "serve s (RpcBatchProcess requests response total_time) =
     (case ImageServiceImpl_BatchProcess (service_metrics s) requests (batch_responses_at s response) total_time of
        (r, m) \<Rightarrow> s\<lparr>service_metrics := m, batch_responses_at := (batch_responses_at s)(response := r)\<rparr>)"
| "serve s (RpcGetMetrics response) =
     (case ImageServiceImpl_GetMetrics (service_metrics s) (metrics_responses s response) of
        (r, m) \<Rightarrow> s\<lparr>service_metrics := m, metrics_responses := (metrics_responses s)(response := r)\<rparr>)"

fun serve_all :: "server \<Rightarrow> rpc list \<Rightarrow> server" where
  "serve_all s [] = s"
| "serve_all s (c # cs) = serve_all (serve s c) cs"

text \<open>A response message as gRPC hands it to the handler: every field at its default.\<close>

definition MetricsResponse_empty :: MetricsResponse where
  "MetricsResponse_empty =
     \<lparr>response_total_processed = 0, response_average_processing_time = 0,
      response_active_connections = 0, response_operation_counts = Map.empty\<rparr>"


section \<open>The native binding (image\_processor.cc)\<close>

subsection \<open>Matrices and the library\<close>

text \<open>
  A \<^verbatim>\<open>cv::Mat\<close> as far as the program reads it: its shape, the size in bytes of one channel
  value (1 for \<^verbatim>\<open>CV_8U\<close>, 4 for \<^verbatim>\<open>CV_32F\<close>) and its storage, row after row.
  \<^verbatim>\<open>mat.total()\<close> is the number of pixels.
\<close>

record Mat =
  rows :: nat
  cols :: nat
  channels :: nat
  elemSize1 :: nat
  data :: "byte list"

definition Mat_total :: "Mat \<Rightarrow> nat" where
  "Mat_total mat = rows mat * cols mat"

text \<open>
  OpenCV is not part of the repository. What the program needs of it and the library
  documents exactly is defined below (\<^verbatim>\<open>bitwise_not\<close>, \<^verbatim>\<open>clone\<close>, the shape of
  \<^verbatim>\<open>cvtColor\<close>'s results); the rest is a parameter of the model: the contents of freshly
  allocated matrix storage, the luma formula of \<^verbatim>\<open>COLOR_BGR2GRAY\<close>, and the algorithms
  of the HDR, tone mapping, exposure fusion, edge and feature paths.
\<close>

record opencv =
  fresh_storage :: "nat \<Rightarrow> byte"
  bgr2gray :: "byte \<Rightarrow> byte \<Rightarrow> byte \<Rightarrow> byte"
  convertTo_32FC3 :: "Mat \<Rightarrow> Mat"
  convertTo_8UC3 :: "Mat \<Rightarrow> Mat"
  cv_pow :: "Mat \<Rightarrow> Mat"
  cv_normalize :: "Mat \<Rightarrow> Mat"
  cv_scale :: "Mat \<Rightarrow> real \<Rightarrow> Mat"
  TonemapReinhard_process :: "Mat \<Rightarrow> Mat"
  TonemapDrago_process :: "Mat \<Rightarrow> Mat"
  TonemapMantiuk_process :: "Mat \<Rightarrow> Mat"
  MergeMertens_process :: "Mat list \<Rightarrow> Mat"
  Canny :: "Mat \<Rightarrow> Mat"
  ORB_drawKeypoints :: "Mat \<Rightarrow> Mat"

definition bitwise_not :: "Mat \<Rightarrow> Mat" where
  "bitwise_not src = src\<lparr>data := map (\<lambda>b. NOT b) (data src)\<rparr>"

definition clone :: "Mat \<Rightarrow> Mat" where
  "clone src = src"

text \<open>\<^verbatim>\<open>cvtColor(src, dst, COLOR_BGR2GRAY)\<close>: one byte per pixel of the three-channel source.\<close>

fun bgr2gray_pixels :: "opencv \<Rightarrow> byte list \<Rightarrow> byte list" where
  "bgr2gray_pixels cv (b # g # r # px) = bgr2gray cv b g r # bgr2gray_pixels cv px"
| "bgr2gray_pixels cv px = []"

definition cvtColor_BGR2GRAY :: "opencv \<Rightarrow> Mat \<Rightarrow> Mat" where
  "cvtColor_BGR2GRAY cv src =
     \<lparr>rows = rows src, cols = cols src, channels = 1, elemSize1 = 1,
      data = bgr2gray_pixels cv (data src)\<rparr>"

text \<open>\<^verbatim>\<open>cvtColor(src, dst, COLOR_GRAY2BGR)\<close>: every gray byte three times.\<close>

definition cvtColor_GRAY2BGR :: "Mat \<Rightarrow> Mat" where
  "cvtColor_GRAY2BGR src =
     \<lparr>rows = rows src, cols = cols src, channels = 3, elemSize1 = 1,
      data = concat (map (\<lambda>y. [y, y, y]) (data src))\<rparr>"

subsection \<open>The processor's state\<close>

text \<open>
  \<^verbatim>\<open>struct Metrics\<close> and the members of \<^verbatim>\<open>ImageProcessor\<close> (a name cannot end in an
  underscore here, so \<^verbatim>\<open>metrics_\<close> is \<open>metrics\<close>, and so on). The detector tables are the
  library's objects and stand behind \<open>ORB_drawKeypoints\<close>.
\<close>

record Metrics =
  total_processed :: "64 word"
  average_time :: real
  operation_count :: "string \<rightharpoonup> 64 word"
  operation_avg_time :: "string \<rightharpoonup> real"
  avx_used :: bool
  memory_allocated :: "64 word"

record ImageProcessor =
  metrics :: Metrics
  initialized :: bool
  avx_supported :: bool

definition Metrics_init :: Metrics where
  "Metrics_init =
     \<lparr>total_processed = 0, average_time = 0, operation_count = Map.empty,
      operation_avg_time = Map.empty, avx_used = False, memory_allocated = 0\<rparr>"

text \<open>
  \<^verbatim>\<open>initializeProcessor\<close>: \<open>ecx\<close> is what \<^verbatim>\<open>__get_cpuid(1, ...)\<close> stores in \<^verbatim>\<open>ecx\<close>;
  bit 28 is the AVX bit.
\<close>

definition initializeProcessor :: "32 word \<Rightarrow> ImageProcessor \<Rightarrow> ImageProcessor" where
  "initializeProcessor ecx p =
     p\<lparr>avx_supported := (ecx AND push_bit 28 1 \<noteq> 0), initialized := True\<rparr>"

definition ImageProcessor_new :: "32 word \<Rightarrow> ImageProcessor" where
  "ImageProcessor_new ecx =
     initializeProcessor ecx \<lparr>metrics = Metrics_init, initialized = False, avx_supported = False\<rparr>"

subsection \<open>Buffers to matrices and back\<close>

text \<open>
  The errors of the binding. \<open>TypeError\<close> is the JavaScript exception \<^verbatim>\<open>ProcessImage\<close>
  throws. \<open>OutOfBounds\<close> is not an exception: it marks a \<^verbatim>\<open>memcpy\<close> that runs past the end
  of an allocation, where the behaviour of the program is undefined; the model stops there.
\<close>

datatype error = TypeError string | OutOfBounds

text \<open>
  \<^verbatim>\<open>
  cv::Mat mat(height, width, channels == 3 ? CV_8UC3 : CV_8UC1);
  std::memcpy(mat.data, buffer.data(), buffer.size());
  \<close>
  The matrix has \<open>height * width * channels\<close> bytes whatever the buffer's length; the bytes
  the copy does not reach keep what the allocation held.
\<close>

definition bufferToMat :: "opencv \<Rightarrow> byte list \<Rightarrow> nat \<Rightarrow> nat \<Rightarrow> nat \<Rightarrow> error + Mat" where
  "bufferToMat cv buffer width height chans =
     (let ch = (if chans = 3 then 3 else 1);
          n = height * width * ch
      in if n < length buffer then Inl OutOfBounds
         else Inr \<lparr>rows = height, cols = width, channels = ch, elemSize1 = 1,
                   data = buffer @ map (fresh_storage cv) [length buffer ..< n]\<rparr>)"

text \<open>
  \<^verbatim>\<open>
  std::vector<uint8_t> buffer(mat.total() * mat.channels());
  std::memcpy(buffer.data(), mat.data, buffer.size());
  \<close>
\<close>

definition matToBuffer :: "Mat \<Rightarrow> error + byte list" where
  "matToBuffer mat =
     (let n = Mat_total mat * channels mat
      in if length (data mat) < n then Inl OutOfBounds else Inr (take n (data mat)))"

subsection \<open>The algorithm paths\<close>

definition processHDR :: "opencv \<Rightarrow> Mat \<Rightarrow> Mat" where
  "processHDR cv input = cv_normalize cv (cv_pow cv (convertTo_32FC3 cv input))"

definition applyToneMapping :: "opencv \<Rightarrow> Mat \<Rightarrow> string \<Rightarrow> Mat" where
  "applyToneMapping cv hdrImage algorithm =
     (if algorithm = ''reinhard'' then TonemapReinhard_process cv hdrImage
      else if algorithm = ''drago'' then TonemapDrago_process cv hdrImage
      else if algorithm = ''durand'' then TonemapMantiuk_process cv hdrImage
      else convertTo_8UC3 cv hdrImage)"

definition applyExposureFusion :: "opencv \<Rightarrow> Mat list \<Rightarrow> Mat" where
  "applyExposureFusion cv images = MergeMertens_process cv images"

definition applyComputerVision :: "opencv \<Rightarrow> Mat \<Rightarrow> string \<Rightarrow> Mat" where
  "applyComputerVision cv input operation =
     (let result = clone input in
      if operation = ''canny'' then cvtColor_GRAY2BGR (Canny cv (cvtColor_BGR2GRAY cv input))
      else if operation = ''orb_features'' then ORB_drawKeypoints cv input
      else result)"

subsection \<open>The vector path\<close>

text \<open>
  A \<^verbatim>\<open>__m256i\<close> is a list of 32 bytes, byte 0 first (the order in memory).
  \<^verbatim>\<open>_mm256_set_epi8\<close> takes its arguments from byte 31 down to byte 0.
  \<^verbatim>\<open>_mm256_shuffle_epi8(a, b)\<close> works on the two 16-byte lanes apart: byte \<open>j\<close> of the
  result is 0 when bit 7 of \<open>b[j]\<close> is set, and else the byte of \<open>a\<close>, in the lane of \<open>j\<close>,
  that the low four bits of \<open>b[j]\<close> select.
\<close>

definition mm256_set_epi8 :: "byte list \<Rightarrow> byte list" where
  "mm256_set_epi8 es = rev es"

definition mm256_shuffle_epi8 :: "byte list \<Rightarrow> byte list \<Rightarrow> byte list" where
  "mm256_shuffle_epi8 a b =
     map (\<lambda>j. if b ! j AND 0x80 \<noteq> 0 then 0
              else a ! ((j div 16) * 16 + unat (b ! j AND 0x0F))) [0..<32]"

definition mm256_loadu_si256 :: "byte list \<Rightarrow> nat \<Rightarrow> byte list" where
  "mm256_loadu_si256 mem i = take 32 (drop i mem)"

definition mm256_storeu_si256 :: "byte list \<Rightarrow> nat \<Rightarrow> byte list \<Rightarrow> byte list" where
  "mm256_storeu_si256 mem i v = take i mem @ v @ drop (i + 32) mem"

definition shuffle_mask :: "byte list" where
  "shuffle_mask = mm256_set_epi8
     [15, 12, 13, 14, 11, 8, 9, 10, 7, 4, 5, 6, 3, 0, 1, 2,
      15, 12, 13, 14, 11, 8, 9, 10, 7, 4, 5, 6, 3, 0, 1, 2]"

text \<open>
  The loop of \<^verbatim>\<open>vectorizedColorConversion\<close>:
  \<^verbatim>\<open>
  for (; i + 31 < size; i += 32) {
      __m256i pixels = _mm256_loadu_si256((__m256i*)&data[i]);
      __m256i shuffled = _mm256_shuffle_epi8(pixels, shuffle_mask);
      _mm256_storeu_si256((__m256i*)&data[i], shuffled);
  }
  \<close>
  \<open>mem\<close> is the storage \<^verbatim>\<open>data\<close> points to and \<open>sz\<close> the argument \<^verbatim>\<open>size\<close>; every caller
  passes the size of the storage in bytes.
\<close>

function vectorizedColorConversion_loop :: "byte list \<Rightarrow> nat \<Rightarrow> nat \<Rightarrow> byte list" where
  "vectorizedColorConversion_loop mem sz i =
     (if i + 31 < sz
      then (let pixels = mm256_loadu_si256 mem i;
                shuffled = mm256_shuffle_epi8 pixels shuffle_mask
            in vectorizedColorConversion_loop (mm256_storeu_si256 mem i shuffled) sz (i + 32))
      else mem)"
  by pat_completeness auto
termination
  by (relation "measure (\<lambda>(mem, sz, i). sz - i)") auto

declare vectorizedColorConversion_loop.simps [simp del]

definition vectorizedColorConversion :: "ImageProcessor \<Rightarrow> byte list \<Rightarrow> nat \<Rightarrow> byte list" where
  "vectorizedColorConversion p mem sz =
     (if \<not> avx_supported p then mem else vectorizedColorConversion_loop mem sz 0)"

definition avxImageProcessing :: "ImageProcessor \<Rightarrow> Mat \<Rightarrow> Mat" where
  "avxImageProcessing p img =
     (if channels img = 3
      then img\<lparr>data := vectorizedColorConversion p (data img) (Mat_total img * channels img)\<rparr>
      else img)"

text \<open>The second component is what is written to \<^verbatim>\<open>std::cout\<close>.\<close>

definition applySIMDOptimization :: "ImageProcessor \<Rightarrow> Mat \<Rightarrow> Mat \<times> string list" where
  "applySIMDOptimization p img =
     (if \<not> avx_supported p then (img, [''AVX not supported, skipping SIMD optimization''])
      else (avxImageProcessing p img, []))"

subsection \<open>ImageProcessor::processImageData\<close>

definition ImageProcessor_processImageData ::
  "opencv \<Rightarrow> ImageProcessor \<Rightarrow> byte list \<Rightarrow> string \<Rightarrow> error + (byte list \<times> string list)" where
  "ImageProcessor_processImageData cv p input operation =
     (let width = 256; height = 256; chans = 3 in
      case bufferToMat cv input width height chans of
        Inl e \<Rightarrow> Inl e
      | Inr inputMat \<Rightarrow>
          (case (if operation = ''invert'' then (bitwise_not inputMat, [])
                 else if operation = ''grayscale'' then (cvtColor_BGR2GRAY cv inputMat, [])
                 else if operation = ''hdr'' then (processHDR cv inputMat, [])
                 else if operation = ''tone_mapping''
                   then (let hdrImage = processHDR cv inputMat
                         in (applyToneMapping cv hdrImage ''reinhard'', []))
                 else if operation = ''exposure_fusion''
                   then (let exposures = [inputMat, cv_scale cv inputMat 0.5, cv_scale cv inputMat 2.0]
                         in (applyExposureFusion cv exposures, []))
                 else if operation = ''edge_detection'' then (applyComputerVision cv inputMat ''canny'', [])
                 else if operation = ''feature_detection''
                   then (applyComputerVision cv inputMat ''orb_features'', [])
                 else if operation = ''simd_optimize'' then applySIMDOptimization p (clone inputMat)
                 else if operation = ''noop'' then (inputMat, [])
                 else (inputMat, [''Unknown operation: '' @ operation])) of
             (resultMat, printed) \<Rightarrow>
               (case matToBuffer resultMat of
                  Inl e \<Rightarrow> Inl e
                | Inr buffer \<Rightarrow> Inr (buffer, printed))))"

subsection \<open>ProcessImage and GetMetrics\<close>

text \<open>The JavaScript values a caller can pass: a Buffer, a string, or anything else.\<close>

datatype napi_value = JsBuffer "byte list" | JsString string | JsOther

fun IsBuffer :: "napi_value \<Rightarrow> bool" where
  "IsBuffer (JsBuffer b) = True"
| "IsBuffer v = False"

fun IsString :: "napi_value \<Rightarrow> bool" where
  "IsString (JsString s) = True"
| "IsString v = False"

fun Buffer_Data :: "napi_value \<Rightarrow> byte list" where
  "Buffer_Data (JsBuffer b) = b"
| "Buffer_Data v = []"

fun Utf8Value :: "napi_value \<Rightarrow> string" where
  "Utf8Value (JsString s) = s"
| "Utf8Value v = []"

text \<open>
  The block under \<^verbatim>\<open>// Update metrics\<close> of \<^verbatim>\<open>ProcessImage\<close>:
  \<^verbatim>\<open>
  metrics_.total_processed++;
  metrics_.average_time = (metrics_.average_time * (metrics_.total_processed - 1)
                           + processing_time) / metrics_.total_processed;
  metrics_.operation_count[operation]++;
  auto& op_count = metrics_.operation_count[operation];
  auto& op_avg_time = metrics_.operation_avg_time[operation];
  op_avg_time = (op_avg_time * (op_count - 1) + processing_time) / op_count;
  if (operation == "simd_optimize" && avx_supported_) metrics_.avx_used = true;
  \<close>
  \<^verbatim>\<open>operator[]\<close> of an \<^verbatim>\<open>unordered_map\<close> inserts 0 (or 0.0) for a missing key. Counters
  are 64-bit and wrap; \<^verbatim>\<open>double\<close> is modelled by the reals, as for the service.
\<close>

definition ProcessImage_update_metrics :: "ImageProcessor \<Rightarrow> string \<Rightarrow> real \<Rightarrow> ImageProcessor" where
  "ProcessImage_update_metrics p operation processing_time =
     (let m = metrics p;
          n = total_processed m + 1;
          avg = (average_time m * real (unat (n - 1)) + processing_time) / real (unat n);
          op_count = (case operation_count m operation of None \<Rightarrow> 0 | Some c \<Rightarrow> c) + 1;
          op_avg_time = (case operation_avg_time m operation of None \<Rightarrow> 0 | Some a \<Rightarrow> a);
          op_avg = (op_avg_time * real (unat (op_count - 1)) + processing_time) / real (unat op_count)
      in p\<lparr>metrics := m
           \<lparr>total_processed := n,
            average_time := avg,
            operation_count := (operation_count m)(operation \<mapsto> op_count),
            operation_avg_time := (operation_avg_time m)(operation \<mapsto> op_avg),
            avx_used := (if operation = ''simd_optimize'' \<and> avx_supported p then True else avx_used m)\<rparr>\<rparr>)"

text \<open>
  \<^verbatim>\<open>ProcessImage\<close>: \<open>info\<close> are the arguments of the call, \<open>processing_time\<close> what the clock
  measured around \<^verbatim>\<open>processImageData\<close>. The result is the content of the Buffer returned,
  or the exception thrown, and the processor after the call.
\<close>

definition ImageProcessor_ProcessImage ::
  "opencv \<Rightarrow> ImageProcessor \<Rightarrow> napi_value list \<Rightarrow> real \<Rightarrow> (error + byte list) \<times> ImageProcessor" where
  "ImageProcessor_ProcessImage cv p info processing_time =
     (if length info < 2 then (Inl (TypeError ''Wrong number of arguments''), p)
      else if \<not> IsBuffer (info ! 0) then (Inl (TypeError ''First argument must be a Buffer''), p)
      else if \<not> IsString (info ! 1)
        then (Inl (TypeError ''Second argument must be a string (operation)''), p)
      else (let input = Buffer_Data (info ! 0);
                operation = Utf8Value (info ! 1)
            in case ImageProcessor_processImageData cv p input operation of
                 Inl e \<Rightarrow> (Inl e, p)
               | Inr (result, printed) \<Rightarrow>
                   (Inr result, ProcessImage_update_metrics p operation processing_time)))"

text \<open>
  The object \<^verbatim>\<open>GetMetrics\<close> builds. A \<^verbatim>\<open>Napi::Number\<close> is a \<^verbatim>\<open>double\<close>, so the counters are
  converted. The loop over \<^verbatim>\<open>operation_count\<close> reads \<^verbatim>\<open>operation_avg_time[op.first]\<close>, and
  \<^verbatim>\<open>operator[]\<close> inserts 0.0 where the key is missing: the second component of the result
  is the processor after that.
\<close>

record OperationMetrics =
  opCount :: real
  opAverageTime :: real

record MetricsObject =
  totalProcessed :: real
  averageTime :: real
  avxSupported :: bool
  avxUsed :: bool
  memoryAllocated :: real
  operations :: "string \<rightharpoonup> OperationMetrics"

definition ImageProcessor_GetMetrics :: "ImageProcessor \<Rightarrow> MetricsObject \<times> ImageProcessor" where
  "ImageProcessor_GetMetrics p =
     (let m = metrics p;
          avg_of = (\<lambda>k. case operation_avg_time m k of None \<Rightarrow> 0 | Some a \<Rightarrow> a)
      in (\<lparr>totalProcessed = real (unat (total_processed m)),
           averageTime = average_time m,
           avxSupported = avx_supported p,
           avxUsed = avx_used m,
           memoryAllocated = real (unat (memory_allocated m)),
           operations = (\<lambda>k. case operation_count m k of
                                None \<Rightarrow> None
                              | Some c \<Rightarrow> Some \<lparr>opCount = real (unat c), opAverageTime = avg_of k\<rparr>)\<rparr>,
          p\<lparr>metrics := m\<lparr>operation_avg_time :=
               (\<lambda>k. case operation_count m k of
                       None \<Rightarrow> operation_avg_time m k
                     | Some c \<Rightarrow> Some (avg_of k))\<rparr>\<rparr>))"

text \<open>
  The addon in its JavaScript world: every value a method returns is a fresh object of
  the JavaScript heap (\<^verbatim>\<open>Napi::Buffer::Copy\<close>, \<^verbatim>\<open>Napi::Object::New\<close>), known to the caller
  by its place in the heap. A call that throws returns \<^verbatim>\<open>env.Null()\<close> and allocates nothing.
\<close>

datatype js_object = BufferObject "byte list" | MetricsObjectOf MetricsObject

record addon =
  processor :: ImageProcessor
  js_heap :: "js_object list"

datatype js_call = CallProcessImage "napi_value list" real | CallGetMetrics

fun invoke :: "opencv \<Rightarrow> addon \<Rightarrow> js_call \<Rightarrow> (error + nat) \<times> addon" where
  "invoke cv w (CallProcessImage info processing_time) =
     (case ImageProcessor_ProcessImage cv (processor w) info processing_time of
        (Inl e, p) \<Rightarrow> (Inl e, w\<lparr>processor := p\<rparr>)
      | (Inr result, p) \<Rightarrow>
          (Inr (length (js_heap w)), \<lparr>processor = p, js_heap = js_heap w @ [BufferObject result]\<rparr>))"
| "invoke cv w CallGetMetrics =
     (case ImageProcessor_GetMetrics (processor w) of
        (obj, p) \<Rightarrow> (Inr (length (js_heap w)), \<lparr>processor = p, js_heap = js_heap w @ [MetricsObjectOf obj]\<rparr>))"

fun invoke_all :: "opencv \<Rightarrow> addon \<Rightarrow> js_call list \<Rightarrow> addon" where
  "invoke_all cv w [] = w"
| "invoke_all cv w (c # cs) = invoke_all cv (snd (invoke cv w c)) cs"


section \<open>Functions used to state what the loops compute\<close>

text \<open>
  What the grayscale loop of the service computes, group by group: every complete group
  of three bytes becomes three copies of one value, what is left at the end stays.
\<close>

fun gray_groups :: "byte list \<Rightarrow> byte list" where
  "gray_groups (a # b # c # xs) =
     (let g = word_of_int ((uint a + uint b + uint c) div 3) in g # g # g # gray_groups xs)"
| "gray_groups xs = xs"

text \<open>
  The place the vector shuffle reads byte \<open>i\<close> from: bytes 0 and 2 of every group of four
  change places.
\<close>

definition swap02 :: "nat \<Rightarrow> nat" where
  "swap02 i = (if i mod 4 = 0 then i + 2 else if i mod 4 = 2 then i - 2 else i)"

text \<open>A buffer of 35 different bytes: one chunk of 32 and a remainder of 3.\<close>

definition bytes35 :: "byte list" where
  "bytes35 = [0,1,2,3,4,5,6,7,8,9,10,11,12,13,14,15,16,17,18,19,20,21,22,23,24,25,26,27,28,29,
              30,31,32,33,34]"

text \<open>
  The operation names each dispatcher compares its argument with: the known operations.
\<close>

definition ImageServiceImpl_known_operations :: "string set" where
  "ImageServiceImpl_known_operations = {''invert'', ''grayscale'', ''noop''}"

definition ImageProcessor_known_operations :: "string set" where
  "ImageProcessor_known_operations =
     {''invert'', ''grayscale'', ''hdr'', ''tone_mapping'', ''exposure_fusion'',
      ''edge_detection'', ''feature_detection'', ''simd_optimize'', ''noop''}"

text \<open>
  The matrix \<^verbatim>\<open>bufferToMat\<close> builds for the geometry \<^verbatim>\<open>processImageData\<close> fixes
  (256 by 256, three channels) from a buffer that fits.
\<close>

definition inputMat_of :: "opencv \<Rightarrow> byte list \<Rightarrow> Mat" where
  "inputMat_of cv b = \<lparr>rows = 256, cols = 256, channels = 3, elemSize1 = 1,
                data = b @ map (fresh_storage cv) [length b ..< 196608]\<rparr>"

text \<open>
  A library for the concrete examples: fresh storage is zero-filled, the luma is OpenCV's
  fixed-point formula for 8-bit images, \<open>(1868 B + 9617 G + 4899 R + 8192) / 16384\<close>, and the
  algorithms the examples do not run return their input.
\<close>

definition opencv_example :: opencv where
  "opencv_example =
     \<lparr>fresh_storage = (\<lambda>i. 0),
      bgr2gray = (\<lambda>b g r. word_of_int ((uint b * 1868 + uint g * 9617 + uint r * 4899 + 8192) div 16384)),
      convertTo_32FC3 = (\<lambda>m. m), convertTo_8UC3 = (\<lambda>m. m), cv_pow = (\<lambda>m. m),
      cv_normalize = (\<lambda>m. m), cv_scale = (\<lambda>m s. m), TonemapReinhard_process = (\<lambda>m. m),
      TonemapDrago_process = (\<lambda>m. m), TonemapMantiuk_process = (\<lambda>m. m),
      MergeMertens_process = (\<lambda>ms. hd ms), Canny = (\<lambda>m. m), ORB_drawKeypoints = (\<lambda>m. m)\<rparr>"

text \<open>
  Every operation counted has an average: what makes the \<^verbatim>\<open>operator[]\<close> of \<^verbatim>\<open>GetMetrics\<close> a
  plain read.
\<close>

definition avg_tracked :: "Metrics \<Rightarrow> bool" where
  "avg_tracked m = (\<forall>k. operation_count m k \<noteq> None \<longrightarrow> operation_avg_time m k \<noteq> None)"

text \<open>The addon after construction, and a server that has answered nothing yet.\<close>

definition addon_new :: "32 word \<Rightarrow> addon" where
  "addon_new ecx = \<lparr>processor = ImageProcessor_new ecx, js_heap = []\<rparr>"

definition server_new :: server where
  "server_new =
     \<lparr>service_metrics = ServiceMetrics_init,
      image_responses = (\<lambda>h. \<lparr>response_processed_data = [], response_status = [],
                                  response_processing_time = 0\<rparr>),
      batch_responses_at = (\<lambda>h. \<lparr>batch_responses = [], batch_total_time = 0\<rparr>),
      metrics_responses = (\<lambda>h. MetricsResponse_empty)\<rparr>"

text \<open>
  The mean of a list of times, the times recorded for one operation, and the completions a
  sequence of calls records: one per call of \<^verbatim>\<open>ProcessImage\<close> that returns a buffer (a call
  that throws records nothing), with its operation and its measured time; for the service,
  one per request, single or in a batch.
\<close>

definition mean :: "real list \<Rightarrow> real" where
  "mean ts = sum_list ts / real (length ts)"

definition times_of :: "string \<Rightarrow> (string \<times> real) list \<Rightarrow> real list" where
  "times_of operation rs = map snd (filter (\<lambda>r. fst r = operation) rs)"

fun recorded :: "opencv \<Rightarrow> addon \<Rightarrow> js_call list \<Rightarrow> (string \<times> real) list" where
  "recorded cv w [] = []"
| "recorded cv w (CallGetMetrics # calls) = recorded cv (snd (invoke cv w CallGetMetrics)) calls"
| "recorded cv w (CallProcessImage info t # calls) =
     (if isl (fst (invoke cv w (CallProcessImage info t))) then [] else [(Utf8Value (info ! 1), t)])
     @ recorded cv (snd (invoke cv w (CallProcessImage info t))) calls"

fun rpc_times :: "rpc \<Rightarrow> real list" where
  "rpc_times (RpcProcessImage request response processing_time) = [processing_time]"
| "rpc_times (RpcBatchProcess requests response total_time) = map snd requests"
| "rpc_times (RpcGetMetrics response) = []"

text \<open>
  The metrics reflect a list of completions: the counters are its lengths and each average,
  times the number of its samples, is the sum of the samples.
\<close>

definition metrics_reflect :: "(string \<times> real) list \<Rightarrow> Metrics \<Rightarrow> bool" where
  "metrics_reflect rs m =
     (total_processed m = of_nat (length rs) \<and>
      average_time m * real (length rs) = sum_list (map snd rs) \<and>
      (\<forall>operation.
         operation_count m operation
           = (if times_of operation rs = [] then None
              else Some (of_nat (length (times_of operation rs)))) \<and>
         operation_avg_time m operation
           = (if times_of operation rs = [] then None else Some (mean (times_of operation rs)))))"

definition service_reflect :: "real list \<Rightarrow> ServiceMetrics \<Rightarrow> bool" where
  "service_reflect ts m =
     (ServiceMetrics.total_processed m = of_nat (length ts) \<and>
      average_processing_time m * real (length ts) = sum_list ts)"

section \<open>The loops of the service\<close>

lemma invert_loop_eq:
  "i \<le> length xs \<Longrightarrow> invert_loop i xs = take i xs @ map (\<lambda>b. 255 - b) (drop i xs)"
proof (induction i xs rule: invert_loop.induct)
  case (1 i out)
  show ?case
  proof (cases "i < length out")
    case True
    have step: "invert_loop i out = invert_loop (i + 1) (out[i := 255 - out ! i])"
      using True by (subst invert_loop.simps) simp
    have ih: "invert_loop (i + 1) (out[i := 255 - out ! i])
        = take (i + 1) (out[i := 255 - out ! i])
          @ map (\<lambda>b. 255 - b) (drop (i + 1) (out[i := 255 - out ! i]))"
      using 1(1)[OF True] True by simp
    have d: "drop i out = out ! i # drop (Suc i) out"
      using True by (simp add: Cons_nth_drop_Suc)
    have t: "take (i + 1) (out[i := 255 - out ! i]) = take i out @ [255 - out ! i]"
      using True by (simp add: take_Suc_conv_app_nth)
    show ?thesis unfolding step ih t d by simp
  next
    case False
    with 1(2) show ?thesis by (subst invert_loop.simps) simp
  qed
qed

lemma length_gray_groups: "length (gray_groups xs) = length xs"
  by (induction xs rule: gray_groups.induct) (simp_all add: Let_def)

lemma drop_three:
  assumes "i + 2 < length xs"
  shows "drop i xs = xs ! i # xs ! (i + 1) # xs ! (i + 2) # drop (i + 3) xs"
proof -
  have 1: "drop i xs = xs ! i # drop (Suc i) xs"
    using assms by (simp add: Cons_nth_drop_Suc)
  have 2: "drop (Suc i) xs = xs ! (Suc i) # drop (Suc (Suc i)) xs"
    using assms by (simp add: Cons_nth_drop_Suc)
  have 3: "drop (Suc (Suc i)) xs = xs ! (Suc (Suc i)) # drop (Suc (Suc (Suc i))) xs"
    using assms by (simp add: Cons_nth_drop_Suc)
  have e: "i + 1 = Suc i" "i + 2 = Suc (Suc i)" "i + 3 = Suc (Suc (Suc i))"
    by simp_all
  show ?thesis unfolding e using 1 2 3 by simp
qed

lemma update_three:
  assumes "length p = i"
  shows "(p @ a # b # c # r)[i + 2 := g, i + 1 := g, i := g] = p @ g # g # g # r"
  using assms by (simp add: list_update_append)

lemma grayscale_loop_eq:
  "i \<le> length xs \<Longrightarrow> grayscale_loop i xs = take i xs @ gray_groups (drop i xs)"
proof (induction i xs rule: grayscale_loop.induct)
  case (1 i out)
  show ?case
  proof (cases "i + 2 < length out")
    case True
    define rest where "rest = drop (i + 3) out"
    define g :: byte where
      "g = word_of_int ((uint (out ! i) + uint (out ! (i + 1)) + uint (out ! (i + 2))) div 3)"
    define out' where "out' = out[i + 2 := g, i + 1 := g, i := g]"
    have d: "drop i out = out ! i # out ! (i + 1) # out ! (i + 2) # rest"
      unfolding rest_def by (rule drop_three[OF True])
    have len: "length (take i out) = i" using True by simp
    have "out = take i out @ drop i out" by simp
    then have o: "out = take i out @ out ! i # out ! (i + 1) # out ! (i + 2) # rest"
      unfolding d .
    have upd: "out' = take i out @ g # g # g # rest"
      unfolding out'_def by (subst o, rule update_three[OF len])
    have lt: "i < length out" using True by simp
    have step: "grayscale_loop i out = grayscale_loop (i + 3) out'"
      using True lt by (subst grayscale_loop.simps) (simp add: Let_def g_def out'_def)
    have ih: "grayscale_loop (i + 3) out' = take (i + 3) out' @ gray_groups (drop (i + 3) out')"
      using 1(1)[OF lt] True by (simp add: Let_def g_def out'_def)
    have tk: "take (i + 3) out' = take i out @ [g, g, g]"
      unfolding upd using len by simp
    have dr: "drop (i + 3) out' = rest"
      unfolding upd using len by simp
    show ?thesis unfolding step ih tk dr d by (simp add: Let_def g_def)
  next
    case False
    have small: "length (drop i out) < 3" using False 1(2) by simp
    have gg: "gray_groups (drop i out) = drop i out"
      using small by (cases "drop i out" rule: gray_groups.cases) simp_all
    have "grayscale_loop i out = out"
      using False by (subst grayscale_loop.simps, subst grayscale_loop.simps) simp
    then show ?thesis using gg by simp
  qed
qed

lemma mean_of_three:
  "(word_of_int ((uint a + uint b + uint c) div 3) :: byte)
     = of_nat ((unat (a::byte) + unat (b::byte) + unat (c::byte)) div 3)"
proof -
  have "(uint a + uint b + uint c) div 3 = int ((unat a + unat b + unat c) div 3)"
    by (simp add: zdiv_int)
  then show ?thesis by simp
qed

lemma gray_groups_nth:
  "k < length xs div 3 \<Longrightarrow> j < 3 \<Longrightarrow>
   gray_groups xs ! (3 * k + j)
     = of_nat ((unat (xs ! (3 * k)) + unat (xs ! (3 * k + 1)) + unat (xs ! (3 * k + 2))) div 3)"
proof (induction xs arbitrary: k rule: gray_groups.induct)
  case (1 a b c xs)
  show ?case
  proof (cases k)
    case 0
    from \<open>j < 3\<close> consider "j = 0" | "j = 1" | "j = 2" by linarith
    then show ?thesis using 0 by cases (simp_all add: Let_def mean_of_three)
  next
    case (Suc k')
    have k': "k' < length xs div 3" using 1(2) Suc by simp
    have e: "3 * k + j = Suc (Suc (Suc (3 * k' + j)))" "3 * k = Suc (Suc (Suc (3 * k')))"
       "3 * k + 1 = Suc (Suc (Suc (3 * k' + 1)))" "3 * k + 2 = Suc (Suc (Suc (3 * k' + 2)))"
      using Suc by simp_all
    show ?thesis unfolding e using 1(1)[OF refl k' 1(3)] by (simp add: Let_def)
  qed
qed simp_all

lemma gray_groups_tail:
  "drop (3 * (length xs div 3)) (gray_groups xs) = drop (3 * (length xs div 3)) xs"
proof (induction xs rule: gray_groups.induct)
  case (1 a b c xs)
  have e: "3 * (length (a # b # c # xs) div 3) = Suc (Suc (Suc (3 * (length xs div 3))))"
    by simp
  show ?case unfolding e using 1 by (simp add: Let_def)
qed simp_all

lemma service_invert:
  "fst (ImageServiceImpl_processImageData b ''invert'') = map (\<lambda>x. 255 - x) b"
  by (simp add: ImageServiceImpl_processImageData_def invert_loop_eq)

lemma service_grayscale:
  "fst (ImageServiceImpl_processImageData b ''grayscale'') = gray_groups b"
  by (simp add: ImageServiceImpl_processImageData_def grayscale_loop_eq)

section \<open>The vector loop\<close>

lemma upt32: "[0..<32] = [0,1,2,3,4,5,6,7,8,9,10,11,12,13,14,15,16,17,18,19,20,21,22,23,24,25,26,27,28,29,30,31::nat]"
  by (simp add: upt_rec)

lemma shuffle_mask_val: "shuffle_mask = [2,1,0,3,6,5,4,7,10,9,8,11,14,13,12,15,2,1,0,3,6,5,4,7,10,9,8,11,14,13,12,15]"
  by (simp add: shuffle_mask_def mm256_set_epi8_def)

lemma shuffle_all:
  "\<forall>j \<in> set [0..<32]. (if shuffle_mask ! j AND 0x80 \<noteq> 0 then 0
              else (a::byte list) ! ((j div 16) * 16 + unat (shuffle_mask ! j AND 0x0F))) = a ! swap02 j"
  unfolding upt32 shuffle_mask_val by (simp add: swap02_def)

lemma shuffle_nth:
  assumes "j < 32"
  shows "mm256_shuffle_epi8 a shuffle_mask ! j = a ! swap02 j"
proof -
  have "j \<in> set [0..<32]" using assms by simp
  with shuffle_all[of a] have h: "(if shuffle_mask ! j AND 0x80 \<noteq> 0 then 0
              else a ! ((j div 16) * 16 + unat (shuffle_mask ! j AND 0x0F))) = a ! swap02 j"
    by blast
  have "mm256_shuffle_epi8 a shuffle_mask ! j = (if shuffle_mask ! j AND 0x80 \<noteq> 0 then 0
              else a ! ((j div 16) * 16 + unat (shuffle_mask ! j AND 0x0F)))"
    using assms by (simp add: mm256_shuffle_epi8_def del: upt.simps)
  then show ?thesis using h by (rule trans)
qed

lemma length_shuffle: "length (mm256_shuffle_epi8 a b) = 32"
  by (simp add: mm256_shuffle_epi8_def)


lemma swap02_block:
  assumes "32 dvd i"
  shows "swap02 (i + j) = i + swap02 j"
proof -
  have "(4::nat) dvd 32" by simp
  then have "4 dvd i" using assms by (rule dvd_trans)
  then have "(i + j) mod 4 = j mod 4" by presburger
  moreover have "j mod 4 = 2 \<Longrightarrow> 2 \<le> j" by arith
  ultimately show ?thesis by (auto simp: swap02_def)
qed

lemma swap02_lt32: "j < 32 \<Longrightarrow> swap02 j < 32"
  unfolding swap02_def by (auto; presburger)

lemma store_nth:
  assumes "length v = 32" "i + 32 \<le> length mem"
  shows "mm256_storeu_si256 mem i v ! k =
     (if i \<le> k \<and> k < i + 32 then v ! (k - i) else mem ! k)"
  using assms by (auto simp: mm256_storeu_si256_def nth_append)

lemma length_store:
  "length v = 32 \<Longrightarrow> i + 32 \<le> length mem \<Longrightarrow> length (mm256_storeu_si256 mem i v) = length mem"
  by (simp add: mm256_storeu_si256_def)

lemma load_nth:
  "i + 32 \<le> length mem \<Longrightarrow> j < 32 \<Longrightarrow> mm256_loadu_si256 mem i ! j = mem ! (i + j)"
  by (simp add: mm256_loadu_si256_def)

lemma step_nth:
  assumes "32 dvd i" "i + 32 \<le> length mem" "k < length mem"
  shows "mm256_storeu_si256 mem i (mm256_shuffle_epi8 (mm256_loadu_si256 mem i) shuffle_mask) ! k
     = (if i \<le> k \<and> k < i + 32 then mem ! swap02 k else mem ! k)"
proof (cases "i \<le> k \<and> k < i + 32")
  case True
  then have j: "k - i < 32" and k: "k = i + (k - i)" by auto
  have "mm256_shuffle_epi8 (mm256_loadu_si256 mem i) shuffle_mask ! (k - i)
      = mm256_loadu_si256 mem i ! swap02 (k - i)"
    by (rule shuffle_nth[OF j])
  also have "\<dots> = mem ! (i + swap02 (k - i))"
    by (rule load_nth[OF assms(2) swap02_lt32[OF j]])
  also have "i + swap02 (k - i) = swap02 k"
    using swap02_block[OF assms(1), of "k - i"] k by simp
  finally show ?thesis
    using True by (simp add: store_nth[OF length_shuffle assms(2)])
next
  case False
  then show ?thesis by (auto simp: store_nth[OF length_shuffle assms(2)])
qed

lemma loop_length:
  "sz \<le> length mem \<Longrightarrow> length (vectorizedColorConversion_loop mem sz i) = length mem"
proof (induction mem sz i rule: vectorizedColorConversion_loop.induct)
  case (1 mem sz i)
  show ?case
  proof (cases "i + 31 < sz")
    case True
    let ?mem' = "mm256_storeu_si256 mem i (mm256_shuffle_epi8 (mm256_loadu_si256 mem i) shuffle_mask)"
    have l: "length ?mem' = length mem"
      using True 1(2) by (intro length_store length_shuffle) simp
    have "vectorizedColorConversion_loop mem sz i = vectorizedColorConversion_loop ?mem' sz (i + 32)"
      using True by (subst vectorizedColorConversion_loop.simps) (simp add: Let_def)
    moreover have "length (vectorizedColorConversion_loop ?mem' sz (i + 32)) = length ?mem'"
      using 1(1)[OF True refl refl] 1(2) l by simp
    ultimately show ?thesis using l by simp
  next
    case False
    then show ?thesis by (subst vectorizedColorConversion_loop.simps) simp
  qed
qed

lemma swap02_ge:
  assumes "4 dvd m" "m \<le> k"
  shows "m \<le> swap02 k"
proof -
  have "k mod 4 = 2 \<Longrightarrow> m \<le> k - 2"
    using assms by presburger
  then show ?thesis using assms(2) by (auto simp: swap02_def)
qed

lemma swap02_lt:
  assumes "4 dvd m" "k < m"
  shows "swap02 k < m"
proof -
  have "k mod 4 = 0 \<Longrightarrow> k + 2 < m"
    using assms by presburger
  then show ?thesis using assms(2) by (auto simp: swap02_def)
qed

lemma full_chunks_ge: "32 dvd i \<Longrightarrow> i + 31 < sz \<Longrightarrow> i + 32 \<le> 32 * (sz div 32)" for i :: nat
proof -
  assume d: "32 dvd i" and lt: "i + 31 < sz"
  obtain q where q: "i = 32 * q" using d by (auto simp: dvd_def)
  have "32 * (q + 1) \<le> sz" using lt q by simp
  then have "q + 1 \<le> sz div 32" by (simp add: less_eq_div_iff_mult_less_eq)
  then have "32 * (q + 1) \<le> 32 * (sz div 32)" by simp
  then show ?thesis using q by simp
qed

lemma full_chunks_le: "32 dvd i \<Longrightarrow> \<not> i + 31 < sz \<Longrightarrow> 32 * (sz div 32) \<le> (i::nat)"
proof -
  assume d: "32 dvd i" and lt: "\<not> i + 31 < sz"
  obtain q where q: "i = 32 * q" using d by (auto simp: dvd_def)
  have "sz < 32 * (q + 1)" using lt q by simp
  then have "sz div 32 < q + 1" by (simp add: div_less_iff_less_mult)
  then have "32 * (sz div 32) \<le> 32 * q" by simp
  then show ?thesis using q by simp
qed

lemma loop_nth:
  "sz \<le> length mem \<Longrightarrow> 32 dvd i \<Longrightarrow> k < length mem \<Longrightarrow>
   vectorizedColorConversion_loop mem sz i ! k
     = (if i \<le> k \<and> k < 32 * (sz div 32) then mem ! swap02 k else mem ! k)"
proof (induction mem sz i rule: vectorizedColorConversion_loop.induct)
  case (1 mem sz i)
  define B where "B = 32 * (sz div 32)"
  have B4: "4 dvd B" unfolding B_def by simp
  have Bsz: "B \<le> sz" unfolding B_def by simp
  show ?case
  proof (cases "i + 31 < sz")
    case True
    define mem' where
      "mem' = mm256_storeu_si256 mem i (mm256_shuffle_epi8 (mm256_loadu_si256 mem i) shuffle_mask)"
    have fits: "i + 32 \<le> length mem" using True 1(2) by simp
    have l: "length mem' = length mem"
      unfolding mem'_def by (rule length_store[OF length_shuffle fits])
    have iB: "i + 32 \<le> B" unfolding B_def by (rule full_chunks_ge[OF 1(3) True])
    have step: "vectorizedColorConversion_loop mem sz i = vectorizedColorConversion_loop mem' sz (i + 32)"
      using True by (subst vectorizedColorConversion_loop.simps) (simp add: Let_def mem'_def)
    have d32: "32 dvd i + 32" using 1(3) by simp
    have "(4::nat) dvd 32" by simp
    then have d4: "4 dvd i + 32" using d32 by (rule dvd_trans)
    have ih: "vectorizedColorConversion_loop mem' sz (i + 32) ! k
        = (if i + 32 \<le> k \<and> k < B then mem' ! swap02 k else mem' ! k)"
      unfolding B_def
      using 1(1)[OF True refl refl, folded mem'_def] 1(2) 1(4) l d32 by simp
    have m': "mem' ! j = (if i \<le> j \<and> j < i + 32 then mem ! swap02 j else mem ! j)"
      if "j < length mem" for j
      unfolding mem'_def by (rule step_nth[OF 1(3) fits that])
    show ?thesis
    proof (cases "i + 32 \<le> k \<and> k < B")
      case hi: True
      have ge: "i + 32 \<le> swap02 k" using hi by (intro swap02_ge[OF d4]) simp
      have lt: "swap02 k < B" using hi by (intro swap02_lt[OF B4]) simp
      then have "swap02 k < length mem" using Bsz 1(2) by simp
      from m'[OF this] ge have "mem' ! swap02 k = mem ! swap02 k" by simp
      then show ?thesis unfolding step ih B_def[symmetric] using hi by simp
    next
      case lo: False
      show ?thesis unfolding step ih B_def[symmetric] using lo m'[OF 1(4)] iB by auto
    qed
  next
    case False
    have "B \<le> i" unfolding B_def by (rule full_chunks_le[OF 1(3) False])
    moreover have "vectorizedColorConversion_loop mem sz i = mem"
      using False by (subst vectorizedColorConversion_loop.simps) simp
    ultimately show ?thesis unfolding B_def[symmetric] by auto
  qed
qed

lemma avx_bit: "avx_supported (ImageProcessor_new 0x10000000)" "\<not> avx_supported (ImageProcessor_new 0)"
  by (simp_all add: ImageProcessor_new_def initializeProcessor_def)

section \<open>The dispatcher of the binding, operation by operation\<close>

lemma bufferToMat_fallback:
  "bufferToMat cv b 256 256 3 =
     (if 196608 < length b then Inl OutOfBounds else Inr (inputMat_of cv b))"
  by (simp add: bufferToMat_def Let_def inputMat_of_def)

lemma matToBuffer_exact:
  "length (data m) = Mat_total m * channels m \<Longrightarrow> matToBuffer m = Inr (data m)"
  by (simp add: matToBuffer_def Let_def)

lemma inputMat_shape:
  "length b \<le> 196608 \<Longrightarrow> length (data (inputMat_of cv b)) = 196608"
  "Mat_total (inputMat_of cv b) = 65536"
  "channels (inputMat_of cv b) = 3"
  "rows (inputMat_of cv b) = 256"
  "cols (inputMat_of cv b) = 256"
  by (simp_all add: inputMat_of_def Mat_total_def)

lemma inputMat_exact: "length b = 196608 \<Longrightarrow> data (inputMat_of cv b) = b"
  by (simp add: inputMat_of_def)

lemma matToBuffer_inputMat:
  "length b \<le> 196608 \<Longrightarrow> matToBuffer (inputMat_of cv b) = Inr (data (inputMat_of cv b))"
  by (rule matToBuffer_exact) (simp add: inputMat_shape)

lemma processor_too_long:
  "196608 < length b \<Longrightarrow> ImageProcessor_processImageData cv p b operation = Inl OutOfBounds"
  by (simp add: ImageProcessor_processImageData_def bufferToMat_fallback Let_def)

lemma processor_unknown:
  assumes "length b \<le> 196608" and "operation \<notin> ImageProcessor_known_operations"
  shows "ImageProcessor_processImageData cv p b operation
    = Inr (data (inputMat_of cv b), [''Unknown operation: '' @ operation])"
  using assms matToBuffer_inputMat[OF assms(1), of cv]
  by (simp add: ImageProcessor_processImageData_def bufferToMat_fallback Let_def
      ImageProcessor_known_operations_def)

lemma processor_noop:
  assumes "length b \<le> 196608"
  shows "ImageProcessor_processImageData cv p b ''noop'' = Inr (data (inputMat_of cv b), [])"
  using assms matToBuffer_inputMat[OF assms(1), of cv]
  by (simp add: ImageProcessor_processImageData_def bufferToMat_fallback Let_def)

lemma processor_invert:
  assumes "length b \<le> 196608"
  shows "ImageProcessor_processImageData cv p b ''invert''
     = Inr (map (\<lambda>x. NOT x) (data (inputMat_of cv b)), [])"
proof -
  have "matToBuffer (bitwise_not (inputMat_of cv b)) = Inr (data (bitwise_not (inputMat_of cv b)))"
    by (rule matToBuffer_exact) (simp add: bitwise_not_def Mat_total_def inputMat_shape assms)
  then show ?thesis using assms
    by (simp add: ImageProcessor_processImageData_def bufferToMat_fallback Let_def bitwise_not_def)
qed

lemma length_bgr2gray_pixels: "length (bgr2gray_pixels cv px) = length px div 3"
  by (induction cv px rule: bgr2gray_pixels.induct) simp_all

lemma processor_grayscale:
  assumes "length b \<le> 196608"
  shows "ImageProcessor_processImageData cv p b ''grayscale''
     = Inr (bgr2gray_pixels cv (data (inputMat_of cv b)), [])"
proof -
  have "matToBuffer (cvtColor_BGR2GRAY cv (inputMat_of cv b))
      = Inr (data (cvtColor_BGR2GRAY cv (inputMat_of cv b)))"
    by (rule matToBuffer_exact)
       (simp add: cvtColor_BGR2GRAY_def Mat_total_def inputMat_shape assms length_bgr2gray_pixels)
  then show ?thesis using assms
    by (simp add: ImageProcessor_processImageData_def bufferToMat_fallback Let_def cvtColor_BGR2GRAY_def)
qed

lemma processor_simd:
  assumes "length b \<le> 196608"
  shows "ImageProcessor_processImageData cv p b ''simd_optimize''
     = Inr (vectorizedColorConversion p (data (inputMat_of cv b)) 196608,
            if avx_supported p then [] else [''AVX not supported, skipping SIMD optimization''])"
proof -
  let ?m = "inputMat_of cv b"
  have l: "(196608::nat) \<le> length (data ?m)" by (simp add: inputMat_shape assms)
  have len: "length (vectorizedColorConversion p (data ?m) 196608) = 196608"
    using loop_length[OF l, of 0] by (simp add: vectorizedColorConversion_def inputMat_shape assms)
  have a: "avxImageProcessing p ?m = ?m\<lparr>data := vectorizedColorConversion p (data ?m) 196608\<rparr>"
    by (simp add: avxImageProcessing_def inputMat_shape)
  have nv: "\<not> avx_supported p \<Longrightarrow> vectorizedColorConversion p (data ?m) 196608 = data ?m"
    by (simp add: vectorizedColorConversion_def)
  have "matToBuffer (?m\<lparr>data := vectorizedColorConversion p (data ?m) 196608\<rparr>)
      = Inr (vectorizedColorConversion p (data ?m) 196608)"
    using matToBuffer_exact[of "?m\<lparr>data := vectorizedColorConversion p (data ?m) 196608\<rparr>"] len
    by (simp add: Mat_total_def inputMat_shape)
  then show ?thesis using assms nv matToBuffer_inputMat[OF assms, of cv]
    by (simp add: ImageProcessor_processImageData_def bufferToMat_fallback Let_def
        applySIMDOptimization_def clone_def a)
qed

lemma length_invert_loop: "length (invert_loop 0 b) = length b"
  by (simp add: invert_loop_eq)

lemma length_grayscale_loop: "length (grayscale_loop 0 b) = length b"
  by (simp add: grayscale_loop_eq length_gray_groups)

lemma service_length: "length (fst (ImageServiceImpl_processImageData b operation)) = length b"
  by (simp add: ImageServiceImpl_processImageData_def length_invert_loop length_grayscale_loop)

lemma service_unknown:
  "operation \<notin> ImageServiceImpl_known_operations \<Longrightarrow>
   ImageServiceImpl_processImageData b operation = (b, [''Unknown operation: '' @ operation])"
  by (simp add: ImageServiceImpl_processImageData_def ImageServiceImpl_known_operations_def)

lemma fresh_example: "map (fresh_storage opencv_example) xs = replicate (length xs) 0"
  by (simp add: opencv_example_def map_replicate_const)

lemma length_pixels: "length (concat (replicate n [a, b, c])) = 3 * n"
  by (induction n) simp_all

lemma gray_groups_pixels:
  "gray_groups (concat (replicate n [v, v, v])) = concat (replicate n [v, v, v])"
proof (induction n)
  case 0
  show ?case by simp
next
  case (Suc n)
  have "(word_of_int ((uint v + uint v + uint v) div 3) :: byte) = v" by simp
  then show ?case using Suc by (simp add: Let_def)
qed

lemma bgr2gray_pixels_uniform:
  "bgr2gray_pixels cv (concat (replicate n [b, g, r])) = replicate n (bgr2gray cv b g r)"
  by (induction n) simp_all

lemma processor_output_lengths:
  assumes "length b \<le> 196608"
  shows "\<exists>out l. ImageProcessor_processImageData cv p b ''invert'' = Inr (out, l) \<and> length out = 196608"
    and "\<exists>out l. ImageProcessor_processImageData cv p b ''simd_optimize'' = Inr (out, l) \<and> length out = 196608"
    and "\<exists>out l. ImageProcessor_processImageData cv p b ''noop'' = Inr (out, l) \<and> length out = 196608"
    and "\<exists>out l. ImageProcessor_processImageData cv p b ''grayscale'' = Inr (out, l) \<and> length out = 65536"
proof -
  have l: "(196608::nat) \<le> length (data (inputMat_of cv b))" by (simp add: inputMat_shape assms)
  show "\<exists>out l. ImageProcessor_processImageData cv p b ''invert'' = Inr (out, l) \<and> length out = 196608"
    by (simp add: processor_invert[OF assms] inputMat_shape assms)
  show "\<exists>out l. ImageProcessor_processImageData cv p b ''simd_optimize'' = Inr (out, l) \<and> length out = 196608"
    using loop_length[OF l, of 0]
    by (simp add: processor_simd[OF assms] vectorizedColorConversion_def inputMat_shape assms)
  show "\<exists>out l. ImageProcessor_processImageData cv p b ''noop'' = Inr (out, l) \<and> length out = 196608"
    by (simp add: processor_noop[OF assms] inputMat_shape assms)
  show "\<exists>out l. ImageProcessor_processImageData cv p b ''grayscale'' = Inr (out, l) \<and> length out = 65536"
    by (simp add: processor_grayscale[OF assms] length_bgr2gray_pixels inputMat_shape assms)
qed

lemma processor_grayscale_uniform:
  "ImageProcessor_processImageData cv p (concat (replicate 65536 [v, v, v])) ''grayscale''
     = Inr (replicate 65536 (bgr2gray cv v v v), [])"
proof -
  let ?b = "concat (replicate 65536 [v, v, v])"
  have len: "length ?b = 196608" by (simp only: length_pixels)
  have le: "length ?b \<le> 196608" by (simp only: len)
  have "ImageProcessor_processImageData cv p ?b ''grayscale''
      = Inr (bgr2gray_pixels cv (data (inputMat_of cv ?b)), [])"
    by (rule processor_grayscale[OF le])
  also have "data (inputMat_of cv ?b) = ?b"
    by (rule inputMat_exact[OF len])
  also have "bgr2gray_pixels cv ?b = replicate 65536 (bgr2gray cv v v v)"
    by (rule bgr2gray_pixels_uniform)
  finally show ?thesis .
qed

lemma bgr2gray_example: "bgr2gray opencv_example 100 100 100 = 100"
  by (simp add: opencv_example_def)

section \<open>ProcessImage of the binding\<close>

lemma matToBuffer_error: "matToBuffer m = Inl e \<Longrightarrow> e = OutOfBounds"
  by (simp add: matToBuffer_def Let_def split: if_splits)

lemma bufferToMat_error: "bufferToMat cv b w h c = Inl e \<Longrightarrow> e = OutOfBounds"
  by (simp add: bufferToMat_def Let_def split: if_splits)

lemma processImageData_error:
  assumes "ImageProcessor_processImageData cv p b operation = Inl e"
  shows "e = OutOfBounds"
proof (cases "bufferToMat cv b 256 256 3")
  case (Inl e')
  then have "e' = OutOfBounds" by (rule bufferToMat_error)
  then show ?thesis using assms Inl by (simp add: ImageProcessor_processImageData_def Let_def)
next
  case (Inr inputMat)
  show ?thesis
    using assms Inr matToBuffer_error
    unfolding ImageProcessor_processImageData_def Let_def
    by (auto split: sum.splits prod.splits)
qed

lemma ProcessImage_malformed:
  assumes "length info < 2 \<or> \<not> IsBuffer (info ! 0) \<or> \<not> IsString (info ! 1)"
  shows "\<exists>msg. ImageProcessor_ProcessImage cv p info t = (Inl (TypeError msg), p)"
  using assms by (auto simp: ImageProcessor_ProcessImage_def)

lemma ProcessImage_wellformed:
  assumes "\<not> (length info < 2 \<or> \<not> IsBuffer (info ! 0) \<or> \<not> IsString (info ! 1))"
  shows "ImageProcessor_ProcessImage cv p info t =
    (case ImageProcessor_processImageData cv p (Buffer_Data (info ! 0)) (Utf8Value (info ! 1)) of
       Inl e \<Rightarrow> (Inl e, p)
     | Inr (result, printed) \<Rightarrow>
         (Inr result, ProcessImage_update_metrics p (Utf8Value (info ! 1)) t))"
  using assms by (simp add: ImageProcessor_ProcessImage_def Let_def del: One_nat_def)

lemma ProcessImage_TypeError_iff:
  "(\<exists>msg. fst (ImageProcessor_ProcessImage cv p info t) = Inl (TypeError msg))
     \<longleftrightarrow> (length info < 2 \<or> \<not> IsBuffer (info ! 0) \<or> \<not> IsString (info ! 1))"
proof
  assume "\<exists>msg. fst (ImageProcessor_ProcessImage cv p info t) = Inl (TypeError msg)"
  then obtain msg where m: "fst (ImageProcessor_ProcessImage cv p info t) = Inl (TypeError msg)" ..
  show "length info < 2 \<or> \<not> IsBuffer (info ! 0) \<or> \<not> IsString (info ! 1)"
  proof (rule ccontr)
    assume n: "\<not> ?thesis"
    show False
      using m processImageData_error[of cv p "Buffer_Data (info ! 0)" "Utf8Value (info ! 1)"]
      unfolding ProcessImage_wellformed[OF n]
      by (auto split: sum.splits prod.splits)
  qed
next
  assume "length info < 2 \<or> \<not> IsBuffer (info ! 0) \<or> \<not> IsString (info ! 1)"
  from ProcessImage_malformed[OF this, of cv p t] show "\<exists>msg. fst (ImageProcessor_ProcessImage cv p info t) = Inl (TypeError msg)"
    by auto
qed

lemma ProcessImage_error_state:
  "isl (fst (ImageProcessor_ProcessImage cv p info t)) \<Longrightarrow> snd (ImageProcessor_ProcessImage cv p info t) = p"
  by (auto simp: ImageProcessor_ProcessImage_def Let_def split: sum.splits prod.splits if_splits)

lemma processImageData_completes:
  assumes "length b \<le> 196608"
    and "operation \<noteq> ''hdr''" "operation \<noteq> ''tone_mapping''" "operation \<noteq> ''exposure_fusion''"
      "operation \<noteq> ''edge_detection''" "operation \<noteq> ''feature_detection''"
  shows "\<exists>out printed. ImageProcessor_processImageData cv p b operation = Inr (out, printed)"
proof (cases "operation = ''invert''")
  case True
  then show ?thesis using processor_invert[OF assms(1)] by simp
next
  case n1: False
  show ?thesis
  proof (cases "operation = ''grayscale''")
    case True
    then show ?thesis using processor_grayscale[OF assms(1)] by simp
  next
    case n2: False
    show ?thesis
    proof (cases "operation = ''simd_optimize''")
      case True
      then show ?thesis using processor_simd[OF assms(1)] by simp
    next
      case n3: False
      show ?thesis
      proof (cases "operation = ''noop''")
        case True
        then show ?thesis using processor_noop[OF assms(1)] by simp
      next
        case n4: False
        have "operation \<notin> ImageProcessor_known_operations"
          unfolding ImageProcessor_known_operations_def
          using n1 n2 n3 n4 assms(2-6) by (simp only: insert_iff empty_iff) blast
        then show ?thesis using processor_unknown[OF assms(1)] by simp
      qed
    qed
  qed
qed

lemma update_metrics_fields:
  "total_processed (metrics (ProcessImage_update_metrics p operation t)) = total_processed (metrics p) + 1"
  "avx_used (metrics (ProcessImage_update_metrics p operation t))
     = (avx_used (metrics p) \<or> operation = ''simd_optimize'' \<and> avx_supported p)"
  "avx_supported (ProcessImage_update_metrics p operation t) = avx_supported p"
  by (auto simp: ProcessImage_update_metrics_def Let_def)

lemma ProcessImage_completes:
  assumes "length b \<le> 196608"
    and "operation \<noteq> ''hdr''" "operation \<noteq> ''tone_mapping''" "operation \<noteq> ''exposure_fusion''"
      "operation \<noteq> ''edge_detection''" "operation \<noteq> ''feature_detection''"
  shows "\<exists>out. ImageProcessor_ProcessImage cv p (JsBuffer b # JsString operation # rest) t
     = (Inr out, ProcessImage_update_metrics p operation t)"
proof -
  obtain out printed where "ImageProcessor_processImageData cv p b operation = Inr (out, printed)"
    using processImageData_completes[OF assms] by blast
  then show ?thesis by (simp add: ImageProcessor_ProcessImage_def Let_def)
qed

lemma service_ProcessImage_status:
  "response_status (fst (ImageServiceImpl_ProcessImage m request response t)) = ''success''"
  by (simp add: ImageServiceImpl_ProcessImage_def Let_def)

lemma service_update_total:
  "ServiceMetrics.total_processed (ImageServiceImpl_update_metrics m operation t)
     = ServiceMetrics.total_processed m + 1"
  by (simp add: ImageServiceImpl_update_metrics_def Let_def)

lemma service_ProcessImage_total:
  "ServiceMetrics.total_processed (snd (ImageServiceImpl_ProcessImage m request response t))
     = ServiceMetrics.total_processed m + 1"
  by (simp add: ImageServiceImpl_ProcessImage_def Let_def service_update_total)

lemma total_processed_new: "total_processed (metrics (ImageProcessor_new ecx)) = 0"
  by (simp add: ImageProcessor_new_def initializeProcessor_def Metrics_init_def)

lemma GetMetrics_fields:
  "avx_used (metrics (snd (ImageProcessor_GetMetrics p))) = avx_used (metrics p)"
  "avx_supported (snd (ImageProcessor_GetMetrics p)) = avx_supported p"
  "avxUsed (fst (ImageProcessor_GetMetrics p)) = avx_used (metrics p)"
  "avxSupported (fst (ImageProcessor_GetMetrics p)) = avx_supported p"
  "averageTime (fst (ImageProcessor_GetMetrics p)) = average_time (metrics p)"
  "totalProcessed (fst (ImageProcessor_GetMetrics p)) = real (unat (total_processed (metrics p)))"
  by (simp_all add: ImageProcessor_GetMetrics_def Let_def)

lemma ProcessImage_cases:
  obtains (failed) e where "ImageProcessor_ProcessImage cv p info t = (Inl e, p)"
  | (completed) out where
      "\<not> (length info < 2 \<or> \<not> IsBuffer (info ! 0) \<or> \<not> IsString (info ! 1))"
      "ImageProcessor_ProcessImage cv p info t
         = (Inr out, ProcessImage_update_metrics p (Utf8Value (info ! 1)) t)"
      "\<exists>printed. ImageProcessor_processImageData cv p (Buffer_Data (info ! 0)) (Utf8Value (info ! 1))
         = Inr (out, printed)"
proof (cases "length info < 2 \<or> \<not> IsBuffer (info ! 0) \<or> \<not> IsString (info ! 1)")
  case True
  from ProcessImage_malformed[OF True, of cv p t] show ?thesis using failed by blast
next
  case False
  show ?thesis
  proof (cases "ImageProcessor_processImageData cv p (Buffer_Data (info ! 0)) (Utf8Value (info ! 1))")
    case (Inl e)
    then show ?thesis using failed[of e] unfolding ProcessImage_wellformed[OF False] by simp
  next
    case (Inr r)
    obtain out printed where r: "r = (out, printed)" by (cases r)
    show ?thesis
      using completed[of out] False Inr unfolding ProcessImage_wellformed[OF False] r by simp
  qed
qed

lemma ProcessImage_avx_used:
  "avx_used (metrics p) \<Longrightarrow> avx_used (metrics (snd (ImageProcessor_ProcessImage cv p info t)))"
  by (cases rule: ProcessImage_cases[where cv=cv and p=p and info=info and t=t]) (simp_all add: update_metrics_fields)

lemma invoke_processor:
  "processor (snd (invoke cv w (CallProcessImage info t)))
     = snd (ImageProcessor_ProcessImage cv (processor w) info t)"
  "processor (snd (invoke cv w CallGetMetrics)) = snd (ImageProcessor_GetMetrics (processor w))"
  by (auto split: prod.splits sum.splits)

lemma invoke_avx_used:
  "avx_used (metrics (processor w)) \<Longrightarrow> avx_used (metrics (processor (snd (invoke cv w c))))"
  by (cases c) (simp_all only: invoke_processor ProcessImage_avx_used GetMetrics_fields)

lemma invoke_all_avx_used:
  "avx_used (metrics (processor w)) \<Longrightarrow> avx_used (metrics (processor (invoke_all cv w calls)))"
  by (induction calls arbitrary: w) (simp_all add: invoke_avx_used)

lemma flag_set_by_vector_path:
  assumes "\<not> avx_used (metrics p)"
    and "avx_used (metrics (snd (ImageProcessor_ProcessImage cv p info t)))"
  shows "avx_supported p \<and> Utf8Value (info ! 1) = ''simd_optimize'' \<and>
     length (Buffer_Data (info ! 0)) \<le> 196608 \<and>
     fst (ImageProcessor_ProcessImage cv p info t)
       = Inr (vectorizedColorConversion_loop (data (inputMat_of cv (Buffer_Data (info ! 0)))) 196608 0)"
proof (cases rule: ProcessImage_cases[where cv=cv and p=p and info=info and t=t])
  case (failed e)
  then show ?thesis using assms by simp
next
  case (completed out)
  have f: "avx_supported p" "Utf8Value (info ! 1) = ''simd_optimize''"
    using assms completed(2) by (simp_all add: update_metrics_fields)
  obtain printed where pr: "ImageProcessor_processImageData cv p (Buffer_Data (info ! 0)) ''simd_optimize''
         = Inr (out, printed)"
    using completed(3) f(2) by auto
  have l: "length (Buffer_Data (info ! 0)) \<le> 196608"
  proof (rule ccontr)
    assume "\<not> ?thesis"
    then have "196608 < length (Buffer_Data (info ! 0))" by simp
    from processor_too_long[OF this, of cv p "''simd_optimize''"] pr show False by simp
  qed
  have "out = vectorizedColorConversion p (data (inputMat_of cv (Buffer_Data (info ! 0)))) 196608"
    using pr unfolding processor_simd[OF l] by simp
  then have "out = vectorizedColorConversion_loop (data (inputMat_of cv (Buffer_Data (info ! 0)))) 196608 0"
    using f(1) by (simp add: vectorizedColorConversion_def)
  then show ?thesis using f l completed(2) by simp
qed

lemma avx_used_new: "\<not> avx_used (metrics (ImageProcessor_new ecx))"
  by (simp add: ImageProcessor_new_def initializeProcessor_def Metrics_init_def)

section \<open>GetMetrics and the objects it returns\<close>

lemma GetMetrics_tracked:
  assumes "avg_tracked (metrics p)"
  shows "snd (ImageProcessor_GetMetrics p) = p"
proof -
  have "(\<lambda>k. case operation_count (metrics p) k of
              None \<Rightarrow> operation_avg_time (metrics p) k
            | Some c \<Rightarrow> Some (case operation_avg_time (metrics p) k of None \<Rightarrow> 0 | Some a \<Rightarrow> a))
        = operation_avg_time (metrics p)"
  proof
    fix k
    show "(case operation_count (metrics p) k of
              None \<Rightarrow> operation_avg_time (metrics p) k
            | Some c \<Rightarrow> Some (case operation_avg_time (metrics p) k of None \<Rightarrow> 0 | Some a \<Rightarrow> a))
        = operation_avg_time (metrics p) k"
      using assms unfolding avg_tracked_def by (auto split: option.splits)
  qed
  then show ?thesis by (simp add: ImageProcessor_GetMetrics_def Let_def)
qed

lemma tracked_new: "avg_tracked (metrics (ImageProcessor_new ecx))"
  by (simp add: avg_tracked_def ImageProcessor_new_def initializeProcessor_def Metrics_init_def)

lemma tracked_update:
  "avg_tracked (metrics p) \<Longrightarrow> avg_tracked (metrics (ProcessImage_update_metrics p operation t))"
  by (simp add: avg_tracked_def ProcessImage_update_metrics_def Let_def)

lemma tracked_ProcessImage:
  "avg_tracked (metrics p) \<Longrightarrow> avg_tracked (metrics (snd (ImageProcessor_ProcessImage cv p info t)))"
  by (cases rule: ProcessImage_cases[where cv=cv and p=p and info=info and t=t])
     (simp_all add: tracked_update)

lemma tracked_invoke:
  "avg_tracked (metrics (processor w)) \<Longrightarrow> avg_tracked (metrics (processor (snd (invoke cv w c))))"
  by (cases c) (simp_all only: invoke_processor tracked_ProcessImage GetMetrics_tracked)

lemma tracked_invoke_all:
  "avg_tracked (metrics (processor w)) \<Longrightarrow> avg_tracked (metrics (processor (invoke_all cv w calls)))"
  by (induction calls arbitrary: w) (simp_all add: tracked_invoke)

lemma invoke_heap: "\<exists>ys. js_heap (snd (invoke cv w c)) = js_heap w @ ys"
  by (cases c) (auto split: prod.splits sum.splits)

lemma invoke_all_heap: "\<exists>ys. js_heap (invoke_all cv w calls) = js_heap w @ ys"
proof (induction calls arbitrary: w)
  case Nil
  show ?case by simp
next
  case (Cons c calls)
  obtain ys where ys: "js_heap (snd (invoke cv w c)) = js_heap w @ ys"
    using invoke_heap by blast
  obtain zs where "js_heap (invoke_all cv (snd (invoke cv w c)) calls) = js_heap (snd (invoke cv w c)) @ zs"
    using Cons by blast
  then show ?case using ys by simp
qed

lemma invoke_GetMetrics:
  "invoke cv w CallGetMetrics
     = (Inr (length (js_heap w)),
        \<lparr>processor = snd (ImageProcessor_GetMetrics (processor w)),
         js_heap = js_heap w @ [MetricsObjectOf (fst (ImageProcessor_GetMetrics (processor w)))]\<rparr>)"
  by (simp split: prod.splits)

lemma snapshot_kept:
  "js_heap (invoke_all cv (snd (invoke cv w CallGetMetrics)) later) ! length (js_heap w)
     = MetricsObjectOf (fst (ImageProcessor_GetMetrics (processor w)))"
proof -
  obtain ys where "js_heap (invoke_all cv (snd (invoke cv w CallGetMetrics)) later)
      = js_heap (snd (invoke cv w CallGetMetrics)) @ ys"
    using invoke_all_heap by blast
  then show ?thesis unfolding invoke_GetMetrics by (simp add: nth_append)
qed

lemma serve_other:
  "c \<noteq> RpcGetMetrics h \<Longrightarrow> metrics_responses (serve s c) h = metrics_responses s h"
  by (cases c) (auto split: prod.splits)

lemma serve_all_other:
  "RpcGetMetrics h \<notin> set rpcs \<Longrightarrow> metrics_responses (serve_all s rpcs) h = metrics_responses s h"
  by (induction rpcs arbitrary: s) (auto simp: serve_other)

lemma serve_GetMetrics:
  "metrics_responses (serve s (RpcGetMetrics h)) h
     = fst (ImageServiceImpl_GetMetrics (service_metrics s) (metrics_responses s h))"
  "service_metrics (serve s (RpcGetMetrics h)) = service_metrics s"
  by (simp_all add: ImageServiceImpl_GetMetrics_def)

section \<open>The running averages\<close>

lemma unat_count: "n < 2 ^ 64 \<Longrightarrow> unat (of_nat n :: 64 word) = n"
  by (simp add: unat_of_nat)

lemma count_succ:
  "(of_nat n :: 64 word) + 1 = of_nat (Suc n)" "(of_nat (Suc n) :: 64 word) - 1 = of_nat n"
  by simp_all

lemma weighted_mean_step:
  assumes "Suc n < 2 ^ 64" and "a * real n = s"
  shows "(a * real (unat ((of_nat n :: 64 word) + 1 - 1)) + t) / real (unat ((of_nat n :: 64 word) + 1))
     = (s + t) / real (Suc n)"
proof -
  have n: "n < 2 ^ 64" using assms(1) by simp
  show ?thesis
    unfolding count_succ unat_count[OF n] unat_count[OF assms(1)] assms(2) ..
qed

lemma mean_times_length: "ts \<noteq> [] \<Longrightarrow> mean ts * real (length ts) = sum_list ts"
  by (simp add: mean_def)

lemma times_of_snoc:
  "times_of operation (rs @ [(op, t)])
     = (if op = operation then times_of operation rs @ [t] else times_of operation rs)"
  by (simp add: times_of_def)

lemma length_times_of: "length (times_of operation rs) \<le> length rs"
  by (simp add: times_of_def)

lemma reflect_update:
  assumes r: "metrics_reflect rs (metrics p)" and bound: "Suc (length rs) < 2 ^ 64"
  shows "metrics_reflect (rs @ [(op, t)]) (metrics (ProcessImage_update_metrics p op t))"
proof -
  let ?m = "metrics p"
  let ?ts = "times_of op rs"
  have tot: "total_processed ?m = of_nat (length rs)"
    and avg: "average_time ?m * real (length rs) = sum_list (map snd rs)"
    and cnt: "\<And>k. operation_count ?m k
           = (if times_of k rs = [] then None else Some (of_nat (length (times_of k rs))))"
    and oavg: "\<And>k. operation_avg_time ?m k
           = (if times_of k rs = [] then None else Some (mean (times_of k rs)))"
    using r unfolding metrics_reflect_def by blast+
  have b1: "length rs < 2 ^ 64" using bound by simp
  have lts: "Suc (length ?ts) < 2 ^ 64" "length ?ts < 2 ^ 64"
    using bound length_times_of[of op rs] by simp_all
  have c: "(case operation_count ?m op of None \<Rightarrow> 0 | Some c \<Rightarrow> c) = (of_nat (length ?ts) :: 64 word)"
    by (simp add: cnt)
  have a: "(case operation_avg_time ?m op of None \<Rightarrow> 0 | Some a \<Rightarrow> a) * real (length ?ts) = sum_list ?ts"
    by (simp add: oavg mean_times_length)
  have new_total: "total_processed (metrics (ProcessImage_update_metrics p op t)) = of_nat (length (rs @ [(op, t)]))"
    by (simp add: ProcessImage_update_metrics_def Let_def tot)
  have "average_time (metrics (ProcessImage_update_metrics p op t))
      = (average_time ?m * real (unat (total_processed ?m + 1 - 1)) + t)
          / real (unat (total_processed ?m + 1))"
    by (simp add: ProcessImage_update_metrics_def Let_def)
  then have new_avg: "average_time (metrics (ProcessImage_update_metrics p op t))
      = (sum_list (map snd rs) + t) / real (Suc (length rs))"
    unfolding tot by (simp only: weighted_mean_step[OF bound avg])
  have new_avg': "average_time (metrics (ProcessImage_update_metrics p op t)) * real (length (rs @ [(op, t)]))
      = sum_list (map snd (rs @ [(op, t)]))"
    unfolding new_avg by simp
  have new_cnt: "operation_count (metrics (ProcessImage_update_metrics p op t)) k
      = (if times_of k (rs @ [(op, t)]) = [] then None
         else Some (of_nat (length (times_of k (rs @ [(op, t)])))))" for k
    by (simp add: ProcessImage_update_metrics_def Let_def times_of_snoc c cnt)
  have op_avg: "((case operation_avg_time ?m op of None \<Rightarrow> 0 | Some a \<Rightarrow> a)
        * real (unat ((case operation_count ?m op of None \<Rightarrow> 0 | Some c \<Rightarrow> c) + 1 - 1)) + t)
        / real (unat ((case operation_count ?m op of None \<Rightarrow> 0 | Some c \<Rightarrow> c) + 1))
      = mean (?ts @ [t])"
    unfolding c by (simp only: weighted_mean_step[OF lts(1) a] mean_def sum_list_append length_append)
      simp
  have new_oavg: "operation_avg_time (metrics (ProcessImage_update_metrics p op t)) k
      = (if times_of k (rs @ [(op, t)]) = [] then None
         else Some (mean (times_of k (rs @ [(op, t)]))))" for k
  proof (cases "k = op")
    case True
    have "operation_avg_time (metrics (ProcessImage_update_metrics p op t)) op
        = Some (((case operation_avg_time ?m op of None \<Rightarrow> 0 | Some a \<Rightarrow> a)
        * real (unat ((case operation_count ?m op of None \<Rightarrow> 0 | Some c \<Rightarrow> c) + 1 - 1)) + t)
        / real (unat ((case operation_count ?m op of None \<Rightarrow> 0 | Some c \<Rightarrow> c) + 1)))"
      by (simp add: ProcessImage_update_metrics_def Let_def)
    then show ?thesis unfolding op_avg using True by (simp add: times_of_snoc)
  next
    case False
    then show ?thesis
      by (simp add: ProcessImage_update_metrics_def Let_def times_of_snoc oavg)
  qed
  show ?thesis
    unfolding metrics_reflect_def using new_total new_avg' new_cnt new_oavg by blast
qed

lemma reflect_tracked: "metrics_reflect rs m \<Longrightarrow> avg_tracked m"
  unfolding metrics_reflect_def avg_tracked_def by (metis option.distinct(1))

lemma reflect_new: "metrics_reflect [] (metrics (ImageProcessor_new ecx))"
  by (simp add: metrics_reflect_def ImageProcessor_new_def initializeProcessor_def Metrics_init_def
      times_of_def)

lemma invoke_isl:
  "isl (fst (invoke cv w (CallProcessImage info t)))
     = isl (fst (ImageProcessor_ProcessImage cv (processor w) info t))"
  by (auto split: prod.splits sum.splits)

lemma reflect_invoke_all:
  "metrics_reflect rs (metrics (processor w)) \<Longrightarrow>
   length rs + length (recorded cv w calls) < 2 ^ 64 \<Longrightarrow>
   metrics_reflect (rs @ recorded cv w calls) (metrics (processor (invoke_all cv w calls)))"
proof (induction calls arbitrary: w rs)
  case Nil
  then show ?case by simp
next
  case (Cons c calls)
  show ?case
  proof (cases c)
    case CallGetMetrics
    have same: "processor (snd (invoke cv w CallGetMetrics)) = processor w"
      unfolding invoke_processor by (rule GetMetrics_tracked[OF reflect_tracked[OF Cons.prems(1)]])
    have "metrics_reflect (rs @ recorded cv (snd (invoke cv w CallGetMetrics)) calls)
        (metrics (processor (invoke_all cv (snd (invoke cv w CallGetMetrics)) calls)))"
      using Cons.prems unfolding CallGetMetrics
      by (intro Cons.IH) (simp_all only: same recorded.simps)
    then show ?thesis unfolding CallGetMetrics by (simp only: recorded.simps invoke_all.simps)
  next
    case (CallProcessImage info t)
    let ?w' = "snd (invoke cv w (CallProcessImage info t))"
    show ?thesis
    proof (cases rule: ProcessImage_cases[where cv=cv and p="processor w" and info=info and t=t])
      case (failed e)
      have p': "processor ?w' = processor w" unfolding invoke_processor failed by simp
      have i: "isl (fst (invoke cv w (CallProcessImage info t)))" unfolding invoke_isl failed by simp
      have r: "recorded cv w (c # calls) = recorded cv ?w' calls"
        unfolding CallProcessImage using i by (simp only: recorded.simps if_True append_Nil)
      have "metrics_reflect (rs @ recorded cv ?w' calls) (metrics (processor (invoke_all cv ?w' calls)))"
        using Cons.prems unfolding r by (intro Cons.IH) (simp_all only: p')
      then show ?thesis unfolding r unfolding CallProcessImage by (simp only: invoke_all.simps)
    next
      case (completed out)
      let ?op = "Utf8Value (info ! 1)"
      have p': "processor ?w' = ProcessImage_update_metrics (processor w) ?op t"
        unfolding invoke_processor completed(2) by simp
      have i: "\<not> isl (fst (invoke cv w (CallProcessImage info t)))"
        unfolding invoke_isl completed(2) by simp
      have r: "recorded cv w (c # calls) = (?op, t) # recorded cv ?w' calls"
        unfolding CallProcessImage using i by (simp only: recorded.simps if_False append_Cons append_Nil)
      have bound: "Suc (length rs) < 2 ^ 64" using Cons.prems(2) unfolding r by simp
      have step: "metrics_reflect (rs @ [(?op, t)]) (metrics (processor ?w'))"
        unfolding p' by (rule reflect_update[OF Cons.prems(1) bound])
      have "metrics_reflect ((rs @ [(?op, t)]) @ recorded cv ?w' calls)
          (metrics (processor (invoke_all cv ?w' calls)))"
        using Cons.prems(2) unfolding r by (intro Cons.IH step) simp
      then show ?thesis unfolding r unfolding CallProcessImage by (simp only: invoke_all.simps append_assoc append_Cons append_Nil)
    qed
  qed
qed

lemma service_reflect_update:
  assumes r: "service_reflect ts m" and bound: "Suc (length ts) < 2 ^ 64"
  shows "service_reflect (ts @ [t]) (ImageServiceImpl_update_metrics m operation t)"
proof -
  have tot: "ServiceMetrics.total_processed m = of_nat (length ts)"
    and avg: "average_processing_time m * real (length ts) = sum_list ts"
    using r unfolding service_reflect_def by blast+
  have "average_processing_time (ImageServiceImpl_update_metrics m operation t)
      = (average_processing_time m * real (unat (ServiceMetrics.total_processed m + 1 - 1)) + t)
          / real (unat (ServiceMetrics.total_processed m + 1))"
    by (simp add: ImageServiceImpl_update_metrics_def Let_def)
  then have new_avg: "average_processing_time (ImageServiceImpl_update_metrics m operation t)
      = (sum_list ts + t) / real (Suc (length ts))"
    unfolding tot by (simp only: weighted_mean_step[OF bound avg])
  have "ServiceMetrics.total_processed (ImageServiceImpl_update_metrics m operation t)
      = of_nat (length (ts @ [t]))"
    by (simp add: service_update_total tot)
  moreover have "average_processing_time (ImageServiceImpl_update_metrics m operation t)
      * real (length (ts @ [t])) = sum_list (ts @ [t])"
    unfolding new_avg by simp
  ultimately show ?thesis unfolding service_reflect_def by blast
qed

lemma service_reflect_batch:
  "service_reflect ts m \<Longrightarrow> length ts + length requests < 2 ^ 64 \<Longrightarrow>
   service_reflect (ts @ map snd requests) (snd (BatchProcess_loop m requests response))"
proof (induction requests arbitrary: m ts response)
  case Nil
  then show ?case by simp
next
  case (Cons r requests)
  obtain image_request t where r: "r = (image_request, t)" by (cases r)
  have bound: "Suc (length ts) < 2 ^ 64" using Cons.prems(2) by simp
  have step: "service_reflect (ts @ [t])
      (ImageServiceImpl_update_metrics m (request_operation image_request) t)"
    by (rule service_reflect_update[OF Cons.prems(1) bound])
  have "service_reflect ((ts @ [t]) @ map snd requests)
      (snd (BatchProcess_loop (ImageServiceImpl_update_metrics m (request_operation image_request) t)
         requests response'))" for response'
    using Cons.prems(2) by (intro Cons.IH step) simp
  then show ?case unfolding r by (simp add: Let_def)
qed

lemma serve_metrics:
  "service_metrics (serve s (RpcProcessImage request h t))
     = ImageServiceImpl_update_metrics (service_metrics s) (request_operation request) t"
  "service_metrics (serve s (RpcBatchProcess requests h total_time))
     = snd (BatchProcess_loop (service_metrics s) requests (batch_responses_at s h))"
  "service_metrics (serve s (RpcGetMetrics h)) = service_metrics s"
  by (simp_all add: ImageServiceImpl_ProcessImage_def ImageServiceImpl_BatchProcess_def
      ImageServiceImpl_GetMetrics_def Let_def split: prod.splits)

lemma service_reflect_serve:
  assumes "service_reflect ts (service_metrics s)" and "length ts + length (rpc_times c) < 2 ^ 64"
  shows "service_reflect (ts @ rpc_times c) (service_metrics (serve s c))"
proof (cases c)
  case (RpcProcessImage request h t)
  have "Suc (length ts) < 2 ^ 64" using assms(2) unfolding RpcProcessImage by simp
  from service_reflect_update[OF assms(1) this] show ?thesis
    unfolding RpcProcessImage serve_metrics by simp
next
  case (RpcBatchProcess requests h total_time)
  have "length ts + length requests < 2 ^ 64" using assms(2) unfolding RpcBatchProcess by simp
  from service_reflect_batch[OF assms(1) this] show ?thesis
    unfolding RpcBatchProcess serve_metrics by simp
next
  case (RpcGetMetrics h)
  then show ?thesis using assms(1) by (simp only: serve_metrics rpc_times.simps append_Nil2)
qed

lemma service_reflect_serve_all:
  "service_reflect ts (service_metrics s) \<Longrightarrow>
   length ts + length (concat (map rpc_times rpcs)) < 2 ^ 64 \<Longrightarrow>
   service_reflect (ts @ concat (map rpc_times rpcs)) (service_metrics (serve_all s rpcs))"
proof (induction rpcs arbitrary: s ts)
  case Nil
  then show ?case by simp
next
  case (Cons c rpcs)
  have b: "length ts + length (rpc_times c) < 2 ^ 64" using Cons.prems(2) by simp
  have "service_reflect ((ts @ rpc_times c) @ concat (map rpc_times rpcs))
      (service_metrics (serve_all (serve s c) rpcs))"
    using Cons.prems(2) by (intro Cons.IH service_reflect_serve[OF Cons.prems(1) b]) simp
  then show ?case by simp
qed

lemma service_reflect_init: "service_reflect [] ServiceMetrics_init"
  by (simp add: service_reflect_def ServiceMetrics_init_def)

lemma incremental_real:
  "(a * real n + t) / real (Suc n) = a + (t - a) / real (Suc n)"
proof -
  have nz: "real (Suc n) \<noteq> 0" by simp
  have "a + (t - a) / real (Suc n) = (a * real (Suc n) + (t - a)) / real (Suc n)"
    using nz by (simp add: add_divide_distrib del: of_nat_Suc)
  also have "a * real (Suc n) + (t - a) = a * real n + t"
    by (simp add: algebra_simps)
  finally show ?thesis by simp
qed

lemma incremental_form:
  fixes x :: "64 word"
  assumes "x + 1 \<noteq> 0"
  shows "(a * real (unat (x + 1 - 1)) + t) / real (unat (x + 1)) = a + (t - a) / real (unat (x + 1))"
proof -
  have "1 + x \<noteq> 0" using assms by (simp add: add.commute)
  then have "unat (1 + x) = Suc (unat x)" by (rule unatSuc)
  then have u: "unat (x + 1) = Suc (unat x)" by (simp add: add.commute)
  have p: "x + 1 - 1 = x" by simp
  show ?thesis unfolding p u by (rule incremental_real)
qed

lemma GetMetrics_operations:
  "operations (fst (ImageProcessor_GetMetrics p)) k
     = (case operation_count (metrics p) k of
          None \<Rightarrow> None
        | Some c \<Rightarrow> Some \<lparr>opCount = real (unat c),
                          opAverageTime = (case operation_avg_time (metrics p) k of None \<Rightarrow> 0 | Some a \<Rightarrow> a)\<rparr>)"
  by (simp add: ImageProcessor_GetMetrics_def Let_def)

lemma mean_of_reflect: "ts \<noteq> [] \<Longrightarrow> a * real (length ts) = sum_list ts \<Longrightarrow> a = mean ts"
  by (simp add: mean_def field_simps)

lemma recorded_completes:
  assumes "length b \<le> 196608"
    and "operation \<noteq> ''hdr''" "operation \<noteq> ''tone_mapping''" "operation \<noteq> ''exposure_fusion''"
      "operation \<noteq> ''edge_detection''" "operation \<noteq> ''feature_detection''"
  shows "recorded cv w (CallProcessImage [JsBuffer b, JsString operation] t # calls)
     = (operation, t) # recorded cv (snd (invoke cv w (CallProcessImage [JsBuffer b, JsString operation] t))) calls"
proof -
  obtain out where "ImageProcessor_ProcessImage cv (processor w) [JsBuffer b, JsString operation] t
     = (Inr out, ProcessImage_update_metrics (processor w) operation t)"
    using ProcessImage_completes[OF assms, of cv "processor w" "[]" t] by blast
  then have "\<not> isl (fst (invoke cv w (CallProcessImage [JsBuffer b, JsString operation] t)))"
    unfolding invoke_isl by simp
  then show ?thesis by (simp only: recorded.simps if_False) simp
qed

lemma recorded_three:
  "recorded opencv_example (addon_new 0)
     [CallProcessImage [JsBuffer [], JsString ''noop''] 10,
      CallProcessImage [JsBuffer [], JsString ''noop''] 20,
      CallProcessImage [JsBuffer [], JsString ''noop''] 30]
   = [(''noop'', 10), (''noop'', 20), (''noop'', 30)]"
proof -
  have l: "length ([] :: byte list) \<le> 196608" by simp
  have n: "''noop'' \<noteq> ''hdr''" "''noop'' \<noteq> ''tone_mapping''" "''noop'' \<noteq> ''exposure_fusion''"
      "''noop'' \<noteq> ''edge_detection''" "''noop'' \<noteq> ''feature_detection''"
    by simp_all
  show ?thesis
    unfolding recorded_completes[OF l n] by (simp only: recorded.simps)
qed

section \<open>The claims\<close>

text \<open>
  C1 (as the code has it). The program has no scalar equivalent of the vector transform:
  where AVX is missing, \<^verbatim>\<open>applySIMDOptimization\<close> and \<^verbatim>\<open>vectorizedColorConversion\<close> return
  without touching the buffer. With AVX, bytes 0 and 2 of every group of four change
  places inside the complete 32-byte chunks, and the remainder after the last complete
  chunk is left as it is: nothing runs on the tail. Both paths keep the length of the
  buffer; they agree on the tail, and on every buffer shorter than one chunk.
\<close>

theorem vectorized_chunks_only:
  assumes "sz \<le> length mem"
  shows "length (vectorizedColorConversion p mem sz) = length mem \<and>
     (\<forall>k < length mem.
        vectorizedColorConversion p mem sz ! k
          = (if avx_supported p \<and> k < 32 * (sz div 32) then mem ! swap02 k else mem ! k)) \<and>
     (\<not> avx_supported p \<longrightarrow> vectorizedColorConversion p mem sz = mem) \<and>
     (sz < 32 \<longrightarrow> vectorizedColorConversion p mem sz = mem)"
proof (intro conjI allI impI)
  show "length (vectorizedColorConversion p mem sz) = length mem"
    using assms by (simp add: vectorizedColorConversion_def loop_length)
  show "vectorizedColorConversion p mem sz ! k
          = (if avx_supported p \<and> k < 32 * (sz div 32) then mem ! swap02 k else mem ! k)"
    if "k < length mem" for k
    using loop_nth[OF assms _ that, of 0] by (simp add: vectorizedColorConversion_def)
  show "vectorizedColorConversion p mem sz = mem" if "\<not> avx_supported p"
    using that by (simp add: vectorizedColorConversion_def)
  show "vectorizedColorConversion p mem sz = mem" if "sz < 32"
    using that by (simp add: vectorizedColorConversion_def vectorizedColorConversion_loop.simps)
qed

theorem vectorized_chunks_only_witness:
  "vectorizedColorConversion (ImageProcessor_new 0x10000000) bytes35 35 ! 0 = 2 \<and>
   vectorizedColorConversion (ImageProcessor_new 0x10000000) bytes35 35 ! 2 = 0 \<and>
   vectorizedColorConversion (ImageProcessor_new 0x10000000) bytes35 35 ! 32 = 32 \<and>
   vectorizedColorConversion (ImageProcessor_new 0x10000000) bytes35 35 ! 34 = 34 \<and>
   length (vectorizedColorConversion (ImageProcessor_new 0x10000000) bytes35 35) = 35 \<and>
   vectorizedColorConversion (ImageProcessor_new 0) bytes35 35 = bytes35 \<and>
   vectorizedColorConversion (ImageProcessor_new 0x10000000) [1, 2, 3, 4, 5] 5 = [1, 2, 3, 4, 5]"
proof -
  have h: "(35::nat) \<le> length bytes35" by (simp add: bytes35_def)
  note t = vectorized_chunks_only[OF h, of "ImageProcessor_new 0x10000000"]
  note u = vectorized_chunks_only[OF h, of "ImageProcessor_new 0"]
  have n: "\<And>k. k < 35 \<Longrightarrow> vectorizedColorConversion (ImageProcessor_new 0x10000000) bytes35 35 ! k
          = (if k < 32 then bytes35 ! swap02 k else bytes35 ! k)"
    using t avx_bit(1) by (simp add: bytes35_def)
  have "length (vectorizedColorConversion (ImageProcessor_new 0x10000000) bytes35 35) = 35"
    using t by (simp add: bytes35_def)
  moreover have "vectorizedColorConversion (ImageProcessor_new 0) bytes35 35 = bytes35"
    using u avx_bit(2) by blast
  moreover have "vectorizedColorConversion (ImageProcessor_new 0x10000000) [1, 2, 3, 4, 5] 5 = [1, 2, 3, 4, 5]"
    using vectorized_chunks_only[of 5 "[1, 2, 3, 4, 5]" "ImageProcessor_new 0x10000000"] by simp
  ultimately show ?thesis
    using n[of 0] n[of 2] n[of 32] n[of 34] by (simp add: swap02_def bytes35_def)
qed

text \<open>
  C1 as stated fails: on 35 different bytes the processor with AVX and the processor
  without it return different buffers.
\<close>

theorem vector_and_scalar_differ:
  "vectorizedColorConversion (ImageProcessor_new 0x10000000) bytes35 35
     \<noteq> vectorizedColorConversion (ImageProcessor_new 0) bytes35 35"
proof -
  have h: "(35::nat) \<le> length bytes35" by (simp add: bytes35_def)
  have l: "(0::nat) < length bytes35" by (simp add: bytes35_def)
  have "vectorizedColorConversion (ImageProcessor_new 0x10000000) bytes35 35 ! 0 = bytes35 ! swap02 0"
    using loop_nth[OF h _ l, of 0] avx_bit(1) by (simp add: vectorizedColorConversion_def)
  then have "vectorizedColorConversion (ImageProcessor_new 0x10000000) bytes35 35 ! 0 = 2"
    by (simp add: swap02_def bytes35_def)
  moreover have "vectorizedColorConversion (ImageProcessor_new 0) bytes35 35 ! 0 = 0"
    using avx_bit(2) by (simp add: vectorizedColorConversion_def bytes35_def)
  ultimately show ?thesis by auto
qed

text \<open>
  C2 (as the code has it). An operation name that is not a known one is logged and
  nothing else. The gRPC dispatcher then returns every buffer unchanged. The binding's
  dispatcher returns the buffer unchanged when it has exactly the 256 * 256 * 3 bytes of the
  geometry the function assumes; a shorter buffer comes back followed by what the matrix
  allocation held, 256 * 256 * 3 bytes in all.
\<close>

theorem unknown_operation_passthrough:
  "(operation \<notin> ImageServiceImpl_known_operations \<longrightarrow>
      ImageServiceImpl_processImageData b operation = (b, [''Unknown operation: '' @ operation])) \<and>
   (operation \<notin> ImageProcessor_known_operations \<and> length b = 256 * 256 * 3 \<longrightarrow>
      ImageProcessor_processImageData cv p b operation
        = Inr (b, [''Unknown operation: '' @ operation])) \<and>
   (operation \<notin> ImageProcessor_known_operations \<and> length b \<le> 256 * 256 * 3 \<longrightarrow>
      ImageProcessor_processImageData cv p b operation
        = Inr (b @ map (fresh_storage cv) [length b ..< 256 * 256 * 3],
               [''Unknown operation: '' @ operation]))"
proof (intro conjI impI)
  show "ImageServiceImpl_processImageData b operation = (b, [''Unknown operation: '' @ operation])"
    if "operation \<notin> ImageServiceImpl_known_operations"
    using that by (rule service_unknown)
  show "ImageProcessor_processImageData cv p b operation = Inr (b, [''Unknown operation: '' @ operation])"
    if "operation \<notin> ImageProcessor_known_operations \<and> length b = 256 * 256 * 3"
    using that processor_unknown[of b operation cv p] by (simp add: inputMat_of_def)
  show "ImageProcessor_processImageData cv p b operation
        = Inr (b @ map (fresh_storage cv) [length b ..< 256 * 256 * 3],
               [''Unknown operation: '' @ operation])"
    if "operation \<notin> ImageProcessor_known_operations \<and> length b \<le> 256 * 256 * 3"
    using that processor_unknown[of b operation cv p] by (simp add: inputMat_of_def)
qed

theorem unknown_operation_passthrough_witness:
  "ImageServiceImpl_processImageData [1, 2, 3] ''not_a_real_op''
     = ([1, 2, 3], [''Unknown operation: not_a_real_op'']) \<and>
   ImageProcessor_processImageData opencv_example (ImageProcessor_new 0) (replicate 196608 9) ''not_a_real_op''
     = Inr (replicate 196608 9, [''Unknown operation: not_a_real_op'']) \<and>
   ImageProcessor_processImageData opencv_example (ImageProcessor_new 0) [1, 2, 3] ''not_a_real_op''
     = Inr ([1, 2, 3] @ replicate 196605 0, [''Unknown operation: not_a_real_op''])"
proof -
  have 1: "''not_a_real_op'' \<notin> ImageServiceImpl_known_operations"
    by (simp add: ImageServiceImpl_known_operations_def)
  have 2: "''not_a_real_op'' \<notin> ImageProcessor_known_operations"
    by (simp add: ImageProcessor_known_operations_def)
  have 3: "length (replicate 196608 (9::byte)) = 256 * 256 * 3" by simp
  have 4: "length [1, 2, 3 :: byte] \<le> 256 * 256 * 3" by simp
  note a = unknown_operation_passthrough[of "''not_a_real_op''" "[1, 2, 3]" opencv_example "ImageProcessor_new 0"]
  note b = unknown_operation_passthrough[of "''not_a_real_op''" "replicate 196608 9" opencv_example "ImageProcessor_new 0"]
  have "ImageServiceImpl_processImageData [1, 2, 3] ''not_a_real_op''
     = ([1, 2, 3], [''Unknown operation: not_a_real_op''])"
    using a 1 by simp
  moreover have "ImageProcessor_processImageData opencv_example (ImageProcessor_new 0) (replicate 196608 9) ''not_a_real_op''
     = Inr (replicate 196608 9, [''Unknown operation: not_a_real_op''])"
    using b 2 3 by simp
  moreover have "ImageProcessor_processImageData opencv_example (ImageProcessor_new 0) [1, 2, 3] ''not_a_real_op''
     = Inr ([1, 2, 3] @ replicate 196605 0, [''Unknown operation: not_a_real_op''])"
    using a 2 4 by (simp add: fresh_example)
  ultimately show ?thesis by blast
qed

text \<open>
  C2 as stated fails in the binding: a buffer of one byte and an unknown operation give
  196608 bytes, not the buffer.
\<close>

theorem short_buffer_not_returned_unchanged:
  "''not_a_real_op'' \<notin> ImageProcessor_known_operations \<and>
   ImageProcessor_processImageData opencv_example (ImageProcessor_new 0) [7] ''not_a_real_op''
     = Inr (7 # replicate 196607 0, [''Unknown operation: not_a_real_op'']) \<and>
   ImageProcessor_processImageData opencv_example (ImageProcessor_new 0) [7] ''not_a_real_op''
     \<noteq> Inr ([7], [''Unknown operation: not_a_real_op''])"
proof -
  have 2: "''not_a_real_op'' \<notin> ImageProcessor_known_operations"
    by (simp add: ImageProcessor_known_operations_def)
  have "ImageProcessor_processImageData opencv_example (ImageProcessor_new 0) [7] ''not_a_real_op''
     = Inr (7 # replicate 196607 0, [''Unknown operation: not_a_real_op''])"
    using processor_unknown[OF _ 2, of "[7]" opencv_example "ImageProcessor_new 0"]
    by (simp add: inputMat_of_def fresh_example)
  then show ?thesis using 2 by simp
qed

text \<open>
  C3 (as the code has it). Neither dispatcher compares the length of the buffer with
  width * height * channels, and no call fails for a size mismatch. \<^verbatim>\<open>ProcessImage\<close> of the
  binding throws a \<open>TypeError\<close> exactly when it has fewer than two arguments, the first is
  not a Buffer or the second is not a string; that is found before \<^verbatim>\<open>processImageData\<close>
  runs, and whenever the call does not return a buffer the metrics are as they were. A
  buffer of at most 256 * 256 * 3 bytes, of whatever length, is processed and its completion
  counted (for the operations that do not go through the algorithm library, whose results
  are parameters here). \<^verbatim>\<open>ProcessImage\<close> of the gRPC service answers \<^verbatim>\<open>success\<close> and counts
  the request for every buffer.
\<close>

theorem no_size_check:
  "((\<exists>msg. fst (ImageProcessor_ProcessImage cv p info t) = Inl (TypeError msg))
      \<longleftrightarrow> (length info < 2 \<or> \<not> IsBuffer (info ! 0) \<or> \<not> IsString (info ! 1))) \<and>
   (isl (fst (ImageProcessor_ProcessImage cv p info t))
      \<longrightarrow> snd (ImageProcessor_ProcessImage cv p info t) = p) \<and>
   (length b \<le> 256 * 256 * 3 \<and>
    operation \<notin> {''hdr'', ''tone_mapping'', ''exposure_fusion'', ''edge_detection'', ''feature_detection''}
      \<longrightarrow> \<not> isl (fst (ImageProcessor_ProcessImage cv p [JsBuffer b, JsString operation] t)) \<and>
          total_processed (metrics (snd (ImageProcessor_ProcessImage cv p [JsBuffer b, JsString operation] t)))
            = total_processed (metrics p) + 1) \<and>
   response_status (fst (ImageServiceImpl_ProcessImage m request response t)) = ''success'' \<and>
   ServiceMetrics.total_processed (snd (ImageServiceImpl_ProcessImage m request response t))
     = ServiceMetrics.total_processed m + 1"
proof (intro conjI impI)
  show "(\<exists>msg. fst (ImageProcessor_ProcessImage cv p info t) = Inl (TypeError msg))
      \<longleftrightarrow> (length info < 2 \<or> \<not> IsBuffer (info ! 0) \<or> \<not> IsString (info ! 1))"
    by (rule ProcessImage_TypeError_iff)
  show "snd (ImageProcessor_ProcessImage cv p info t) = p"
    if "isl (fst (ImageProcessor_ProcessImage cv p info t))"
    using that by (rule ProcessImage_error_state)
  assume a: "length b \<le> 256 * 256 * 3 \<and>
    operation \<notin> {''hdr'', ''tone_mapping'', ''exposure_fusion'', ''edge_detection'', ''feature_detection''}"
  then have l: "length b \<le> 196608" by simp
  have n: "operation \<noteq> ''hdr''" "operation \<noteq> ''tone_mapping''" "operation \<noteq> ''exposure_fusion''"
      "operation \<noteq> ''edge_detection''" "operation \<noteq> ''feature_detection''"
    using a by (simp_all only: insert_iff empty_iff de_Morgan_disj simp_thms)
  obtain out where o: "ImageProcessor_ProcessImage cv p [JsBuffer b, JsString operation] t
     = (Inr out, ProcessImage_update_metrics p operation t)"
    using ProcessImage_completes[OF l n, of cv p "[]" t] by blast
  show "\<not> isl (fst (ImageProcessor_ProcessImage cv p [JsBuffer b, JsString operation] t))"
    unfolding o by simp
  show "total_processed (metrics (snd (ImageProcessor_ProcessImage cv p [JsBuffer b, JsString operation] t)))
            = total_processed (metrics p) + 1"
    unfolding o by (simp add: update_metrics_fields)
qed (rule service_ProcessImage_status service_ProcessImage_total)+

theorem no_size_check_witness:
  "(\<exists>msg. fst (ImageProcessor_ProcessImage opencv_example (ImageProcessor_new 0) [JsBuffer [1, 2, 3]] 5)
            = Inl (TypeError msg)) \<and>
   snd (ImageProcessor_ProcessImage opencv_example (ImageProcessor_new 0) [JsBuffer [1, 2, 3]] 5)
     = ImageProcessor_new 0 \<and>
   \<not> isl (fst (ImageProcessor_ProcessImage opencv_example (ImageProcessor_new 0)
                  [JsBuffer [1, 2, 3], JsString ''invert''] 5)) \<and>
   total_processed (metrics (snd (ImageProcessor_ProcessImage opencv_example (ImageProcessor_new 0)
                  [JsBuffer [1, 2, 3], JsString ''invert''] 5))) = 1"
proof -
  note a = no_size_check[of opencv_example "ImageProcessor_new 0" "[JsBuffer [1, 2, 3]]" 5
      "[1, 2, 3]" "''invert''"]
  have e: "\<exists>msg. fst (ImageProcessor_ProcessImage opencv_example (ImageProcessor_new 0) [JsBuffer [1, 2, 3]] 5)
            = Inl (TypeError msg)"
    using a by simp
  then have "isl (fst (ImageProcessor_ProcessImage opencv_example (ImageProcessor_new 0) [JsBuffer [1, 2, 3]] 5))"
    by auto
  then have s: "snd (ImageProcessor_ProcessImage opencv_example (ImageProcessor_new 0) [JsBuffer [1, 2, 3]] 5)
     = ImageProcessor_new 0"
    using a by blast
  have h: "length [1, 2, 3 :: byte] \<le> 256 * 256 * 3 \<and>
    ''invert'' \<notin> {''hdr'', ''tone_mapping'', ''exposure_fusion'', ''edge_detection'', ''feature_detection''}"
    by simp
  have "\<not> isl (fst (ImageProcessor_ProcessImage opencv_example (ImageProcessor_new 0)
                  [JsBuffer [1, 2, 3], JsString ''invert''] 5)) \<and>
   total_processed (metrics (snd (ImageProcessor_ProcessImage opencv_example (ImageProcessor_new 0)
                  [JsBuffer [1, 2, 3], JsString ''invert''] 5))) = 1"
    using a h by (simp only: total_processed_new) simp
  then show ?thesis using e s by blast
qed

text \<open>
  C3 as stated fails: a buffer of one byte, whose length is not 256 * 256 * 3, is processed
  by the binding without any error and counted in the metrics.
\<close>

theorem mismatched_buffer_is_processed:
  "length [7 :: byte] \<noteq> 256 * 256 * 3 \<and>
   fst (ImageProcessor_ProcessImage opencv_example (ImageProcessor_new 0) [JsBuffer [7], JsString ''noop''] 5)
     = Inr (7 # replicate 196607 0) \<and>
   total_processed (metrics (snd (ImageProcessor_ProcessImage opencv_example (ImageProcessor_new 0)
        [JsBuffer [7], JsString ''noop''] 5))) = 1"
proof -
  have "ImageProcessor_processImageData opencv_example (ImageProcessor_new 0) [7] ''noop''
      = Inr (7 # replicate 196607 0, [])"
    using processor_noop[of "[7]" opencv_example "ImageProcessor_new 0"]
    by (simp add: inputMat_of_def fresh_example)
  then have "ImageProcessor_ProcessImage opencv_example (ImageProcessor_new 0) [JsBuffer [7], JsString ''noop''] 5
      = (Inr (7 # replicate 196607 0), ProcessImage_update_metrics (ImageProcessor_new 0) ''noop'' 5)"
    by (simp add: ImageProcessor_ProcessImage_def Let_def)
  then show ?thesis by (simp add: update_metrics_fields total_processed_new)
qed

text \<open>
  C4. With \<^verbatim>\<open>double\<close> read as the reals (what the machine computes differs by rounding
  only, the tolerance of the claim) and fewer than \<open>2^64\<close> completions (the counters are
  64-bit): after any calls on a new addon, the object \<^verbatim>\<open>GetMetrics\<close> returns has
  \<open>totalProcessed\<close> the number of completions recorded, \<open>averageTime\<close> the mean of their
  times, and for every operation recorded its count and the mean of the times recorded for
  that operation. After any requests to a new service, single or batched, the average
  \<^verbatim>\<open>GetMetrics\<close> reports is the mean of the times of all requests (the service keeps no
  average per operation). Each completion updates an average once, and the update is the
  incremental mean \<open>avg + (t - avg) / n\<close> with \<open>n\<close> the new count.
\<close>

theorem running_average_is_mean:
  "(length (recorded cv (addon_new ecx) calls) < 2 ^ 64 \<longrightarrow>
      totalProcessed (fst (ImageProcessor_GetMetrics (processor (invoke_all cv (addon_new ecx) calls))))
        = real (length (recorded cv (addon_new ecx) calls)) \<and>
      (recorded cv (addon_new ecx) calls \<noteq> [] \<longrightarrow>
         averageTime (fst (ImageProcessor_GetMetrics (processor (invoke_all cv (addon_new ecx) calls))))
           = mean (map snd (recorded cv (addon_new ecx) calls))) \<and>
      (\<forall>operation. times_of operation (recorded cv (addon_new ecx) calls) \<noteq> [] \<longrightarrow>
         operations (fst (ImageProcessor_GetMetrics (processor (invoke_all cv (addon_new ecx) calls))))
             operation
           = Some \<lparr>opCount = real (length (times_of operation (recorded cv (addon_new ecx) calls))),
                   opAverageTime = mean (times_of operation (recorded cv (addon_new ecx) calls))\<rparr>)) \<and>
   (service_metrics s = ServiceMetrics_init \<and> concat (map rpc_times rpcs) \<noteq> [] \<and>
    length (concat (map rpc_times rpcs)) < 2 ^ 64 \<longrightarrow>
      response_average_processing_time
          (fst (ImageServiceImpl_GetMetrics (service_metrics (serve_all s rpcs)) response))
        = mean (concat (map rpc_times rpcs))) \<and>
   (total_processed (metrics p) + 1 \<noteq> 0 \<longrightarrow>
      average_time (metrics (ProcessImage_update_metrics p operation t))
        = average_time (metrics p)
          + (t - average_time (metrics p)) / real (unat (total_processed (metrics p) + 1))) \<and>
   (ServiceMetrics.total_processed m + 1 \<noteq> 0 \<longrightarrow>
      average_processing_time (ImageServiceImpl_update_metrics m operation t)
        = average_processing_time m
          + (t - average_processing_time m) / real (unat (ServiceMetrics.total_processed m + 1)))"
proof (intro conjI impI allI)
  let ?rs = "recorded cv (addon_new ecx) calls"
  let ?p = "processor (invoke_all cv (addon_new ecx) calls)"
  assume bound: "length ?rs < 2 ^ 64"
  have "metrics_reflect [] (metrics (processor (addon_new ecx)))"
    by (simp add: addon_new_def reflect_new)
  from reflect_invoke_all[OF this, of cv calls] bound
  have r: "metrics_reflect ?rs (metrics ?p)" by simp
  have tot: "total_processed (metrics ?p) = of_nat (length ?rs)"
    and avg: "average_time (metrics ?p) * real (length ?rs) = sum_list (map snd ?rs)"
    and cnt: "\<And>k. operation_count (metrics ?p) k
           = (if times_of k ?rs = [] then None else Some (of_nat (length (times_of k ?rs))))"
    and oavg: "\<And>k. operation_avg_time (metrics ?p) k
           = (if times_of k ?rs = [] then None else Some (mean (times_of k ?rs)))"
    using r unfolding metrics_reflect_def by blast+
  show "totalProcessed (fst (ImageProcessor_GetMetrics ?p)) = real (length ?rs)"
    unfolding GetMetrics_fields tot unat_count[OF bound] ..
  show "averageTime (fst (ImageProcessor_GetMetrics ?p)) = mean (map snd ?rs)" if "?rs \<noteq> []"
    unfolding GetMetrics_fields using mean_of_reflect[of "map snd ?rs" "average_time (metrics ?p)"] that avg
    by simp
  show "operations (fst (ImageProcessor_GetMetrics ?p)) operation
           = Some \<lparr>opCount = real (length (times_of operation ?rs)),
                   opAverageTime = mean (times_of operation ?rs)\<rparr>"
    if ne: "times_of operation ?rs \<noteq> []" for operation
  proof -
    have "length (times_of operation ?rs) < 2 ^ 64"
      using bound length_times_of[of operation ?rs] by simp
    then have u: "unat (of_nat (length (times_of operation ?rs)) :: 64 word) = length (times_of operation ?rs)"
      by (rule unat_count)
    show ?thesis
      unfolding GetMetrics_operations cnt oavg using ne by (simp only: if_False option.case u)
  qed
next
  assume a: "service_metrics s = ServiceMetrics_init \<and> concat (map rpc_times rpcs) \<noteq> [] \<and>
    length (concat (map rpc_times rpcs)) < 2 ^ 64"
  let ?ts = "concat (map rpc_times rpcs)"
  have "service_reflect [] (service_metrics s)" using a by (simp add: service_reflect_init)
  from service_reflect_serve_all[OF this, of rpcs] a
  have "service_reflect ?ts (service_metrics (serve_all s rpcs))" by simp
  then have "average_processing_time (service_metrics (serve_all s rpcs)) * real (length ?ts) = sum_list ?ts"
    unfolding service_reflect_def by blast
  then have "average_processing_time (service_metrics (serve_all s rpcs)) = mean ?ts"
    using a by (intro mean_of_reflect) simp_all
  then show "response_average_processing_time
          (fst (ImageServiceImpl_GetMetrics (service_metrics (serve_all s rpcs)) response))
        = mean (concat (map rpc_times rpcs))"
    by (simp add: ImageServiceImpl_GetMetrics_def)
next
  assume nz: "total_processed (metrics p) + 1 \<noteq> 0"
  have "average_time (metrics (ProcessImage_update_metrics p operation t))
      = (average_time (metrics p) * real (unat (total_processed (metrics p) + 1 - 1)) + t)
          / real (unat (total_processed (metrics p) + 1))"
    by (simp add: ProcessImage_update_metrics_def Let_def)
  then show "average_time (metrics (ProcessImage_update_metrics p operation t))
        = average_time (metrics p)
          + (t - average_time (metrics p)) / real (unat (total_processed (metrics p) + 1))"
    by (simp only: incremental_form[OF nz])
next
  assume nz: "ServiceMetrics.total_processed m + 1 \<noteq> 0"
  have "average_processing_time (ImageServiceImpl_update_metrics m operation t)
      = (average_processing_time m * real (unat (ServiceMetrics.total_processed m + 1 - 1)) + t)
          / real (unat (ServiceMetrics.total_processed m + 1))"
    by (simp add: ImageServiceImpl_update_metrics_def Let_def)
  then show "average_processing_time (ImageServiceImpl_update_metrics m operation t)
        = average_processing_time m
          + (t - average_processing_time m) / real (unat (ServiceMetrics.total_processed m + 1))"
    by (simp only: incremental_form[OF nz])
qed

theorem running_average_is_mean_witness:
  "totalProcessed (fst (ImageProcessor_GetMetrics (processor (invoke_all opencv_example (addon_new 0)
     [CallProcessImage [JsBuffer [], JsString ''noop''] 10,
      CallProcessImage [JsBuffer [], JsString ''noop''] 20,
      CallProcessImage [JsBuffer [], JsString ''noop''] 30])))) = 3 \<and>
   averageTime (fst (ImageProcessor_GetMetrics (processor (invoke_all opencv_example (addon_new 0)
     [CallProcessImage [JsBuffer [], JsString ''noop''] 10,
      CallProcessImage [JsBuffer [], JsString ''noop''] 20,
      CallProcessImage [JsBuffer [], JsString ''noop''] 30])))) = 20 \<and>
   operations (fst (ImageProcessor_GetMetrics (processor (invoke_all opencv_example (addon_new 0)
     [CallProcessImage [JsBuffer [], JsString ''noop''] 10,
      CallProcessImage [JsBuffer [], JsString ''noop''] 20,
      CallProcessImage [JsBuffer [], JsString ''noop''] 30])))) ''noop''
     = Some \<lparr>opCount = 3, opAverageTime = 20\<rparr> \<and>
   response_average_processing_time
     (fst (ImageServiceImpl_GetMetrics
        (service_metrics (serve_all server_new
           [RpcProcessImage \<lparr>request_image_data = [], request_operation = ''noop''\<rparr> 0 10,
            RpcBatchProcess [(\<lparr>request_image_data = [], request_operation = ''invert''\<rparr>, 20),
                             (\<lparr>request_image_data = [], request_operation = ''noop''\<rparr>, 30)] 0 55]))
        MetricsResponse_empty)) = 20 \<and>
   average_time (metrics (ProcessImage_update_metrics (ImageProcessor_new 0) ''noop'' 10)) = 10 \<and>
   average_processing_time (ImageServiceImpl_update_metrics ServiceMetrics_init ''noop'' 10) = 10"
proof -
  let ?calls = "[CallProcessImage [JsBuffer [], JsString ''noop''] 10,
      CallProcessImage [JsBuffer [], JsString ''noop''] 20,
      CallProcessImage [JsBuffer [], JsString ''noop''] 30]"
  let ?rpcs = "[RpcProcessImage \<lparr>request_image_data = [], request_operation = ''noop''\<rparr> 0 10,
            RpcBatchProcess [(\<lparr>request_image_data = [], request_operation = ''invert''\<rparr>, 20),
                             (\<lparr>request_image_data = [], request_operation = ''noop''\<rparr>, 30)] 0 55]"
  note t = running_average_is_mean[of opencv_example 0 ?calls server_new ?rpcs MetricsResponse_empty
      "ImageProcessor_new 0" "''noop''" 10 ServiceMetrics_init]
  have b: "length (recorded opencv_example (addon_new 0) ?calls) < 2 ^ 64"
    unfolding recorded_three by simp
  have to: "times_of ''noop'' [(''noop'', 10), (''noop'', 20), (''noop'', 30)] = [10, 20, 30]"
    by (simp add: times_of_def)
  have m: "mean [10, 20, 30] = 20" by (simp add: mean_def)
  have 1: "totalProcessed (fst (ImageProcessor_GetMetrics (processor (invoke_all opencv_example (addon_new 0) ?calls)))) = 3"
    using t b unfolding recorded_three by simp
  have 2: "averageTime (fst (ImageProcessor_GetMetrics (processor (invoke_all opencv_example (addon_new 0) ?calls)))) = 20"
    using t b unfolding recorded_three by (simp add: m)
  have "times_of ''noop'' (recorded opencv_example (addon_new 0) ?calls) \<noteq> []"
    unfolding recorded_three to by simp
  with t b have "operations (fst (ImageProcessor_GetMetrics (processor (invoke_all opencv_example (addon_new 0) ?calls)))) ''noop''
     = Some \<lparr>opCount = real (length (times_of ''noop'' (recorded opencv_example (addon_new 0) ?calls))),
             opAverageTime = mean (times_of ''noop'' (recorded opencv_example (addon_new 0) ?calls))\<rparr>"
    by blast
  then have 3: "operations (fst (ImageProcessor_GetMetrics (processor (invoke_all opencv_example (addon_new 0) ?calls)))) ''noop''
     = Some \<lparr>opCount = 3, opAverageTime = 20\<rparr>"
    unfolding recorded_three to m by simp
  have ts: "concat (map rpc_times ?rpcs) = [10, 20, 30]" by simp
  have s: "service_metrics server_new = ServiceMetrics_init" by (simp add: server_new_def)
  have 4: "response_average_processing_time
     (fst (ImageServiceImpl_GetMetrics (service_metrics (serve_all server_new ?rpcs)) MetricsResponse_empty)) = 20"
    using t s unfolding ts m by simp
  have z: "total_processed (metrics (ImageProcessor_new 0)) + 1 \<noteq> 0"
    "ServiceMetrics.total_processed ServiceMetrics_init + 1 \<noteq> 0"
    "average_time (metrics (ImageProcessor_new 0)) = 0"
    "average_processing_time ServiceMetrics_init = 0"
    by (simp_all add: total_processed_new ServiceMetrics_init_def ImageProcessor_new_def
        initializeProcessor_def Metrics_init_def)
  have 5: "average_time (metrics (ProcessImage_update_metrics (ImageProcessor_new 0) ''noop'' 10)) = 10"
    using t z(1) by (simp add: z(3) total_processed_new)
  have 6: "average_processing_time (ImageServiceImpl_update_metrics ServiceMetrics_init ''noop'' 10) = 10"
    using t z(2) by (simp add: z(4) ServiceMetrics_init_def)
  show ?thesis using 1 2 3 4 5 6 by blast
qed

text \<open>
  C5 (as the code has it). The gRPC dispatcher keeps the length of the buffer for every
  operation. The binding's dispatcher returns the bytes of a 256 by 256 matrix whatever
  the length of a buffer that fits: 256 * 256 * 3 bytes for \<^verbatim>\<open>invert\<close>,
  \<^verbatim>\<open>simd_optimize\<close> and \<^verbatim>\<open>noop\<close>, and 256 * 256 bytes, one channel, for \<^verbatim>\<open>grayscale\<close>.
\<close>

theorem dispatch_output_length:
  "length (fst (ImageServiceImpl_processImageData b operation)) = length b \<and>
   (length b \<le> 256 * 256 * 3 \<longrightarrow>
      (\<forall>op \<in> {''invert'', ''simd_optimize'', ''noop''}.
         \<exists>out l. ImageProcessor_processImageData cv p b op = Inr (out, l) \<and> length out = 256 * 256 * 3) \<and>
      (\<exists>out l. ImageProcessor_processImageData cv p b ''grayscale'' = Inr (out, l) \<and>
                length out = 256 * 256))"
  using processor_output_lengths[of b cv p] service_length[of b operation] by simp

theorem dispatch_output_length_witness:
  "length (fst (ImageServiceImpl_processImageData [1, 2, 3, 4] ''grayscale'')) = 4 \<and>
   (\<exists>out l. ImageProcessor_processImageData opencv_example (ImageProcessor_new 0) [1, 2, 3, 4] ''noop''
               = Inr (out, l) \<and> length out = 196608) \<and>
   (\<exists>out l. ImageProcessor_processImageData opencv_example (ImageProcessor_new 0) [1, 2, 3, 4] ''grayscale''
               = Inr (out, l) \<and> length out = 65536)"
proof -
  have h: "length [1, 2, 3, 4 :: byte] \<le> 256 * 256 * 3" by simp
  have m: "''noop'' \<in> {''invert'', ''simd_optimize'', ''noop''}" by simp
  note t = dispatch_output_length[of "[1, 2, 3, 4]" "''grayscale''" opencv_example "ImageProcessor_new 0"]
  have "length (fst (ImageServiceImpl_processImageData [1, 2, 3, 4] ''grayscale'')) = 4"
    using t by simp
  moreover have "\<exists>out l. ImageProcessor_processImageData opencv_example (ImageProcessor_new 0) [1, 2, 3, 4] ''noop''
               = Inr (out, l) \<and> length out = 196608"
    using t h m by simp
  moreover have "\<exists>out l. ImageProcessor_processImageData opencv_example (ImageProcessor_new 0) [1, 2, 3, 4] ''grayscale''
               = Inr (out, l) \<and> length out = 65536"
    using t h by simp
  ultimately show ?thesis by blast
qed

text \<open>
  C5 as stated fails in the binding: \<^verbatim>\<open>grayscale\<close> turns 196608 bytes into 65536, and
  \<^verbatim>\<open>noop\<close> turns one byte into 196608.
\<close>

theorem grayscale_changes_length:
  "''grayscale'' \<in> ImageProcessor_known_operations \<and>
   length (replicate 196608 (100::byte)) = 256 * 256 * 3 \<and>
   map_sum id (\<lambda>r. length (fst r))
     (ImageProcessor_processImageData opencv_example (ImageProcessor_new 0) (replicate 196608 100) ''grayscale'')
     = Inr 65536 \<and>
   ''noop'' \<in> ImageProcessor_known_operations \<and>
   map_sum id (\<lambda>r. length (fst r))
     (ImageProcessor_processImageData opencv_example (ImageProcessor_new 0) [7] ''noop'')
     = Inr 196608"
  by (simp add: ImageProcessor_known_operations_def processor_grayscale processor_noop
      length_bgr2gray_pixels inputMat_shape)

text \<open>
  C6. Once \<open>avx_used\<close> is true it stays true: after any further calls, whatever their
  operations, the object \<^verbatim>\<open>GetMetrics\<close> returns reports \<open>avxUsed\<close>. A call of
  \<^verbatim>\<open>ProcessImage\<close> turns the flag from false to true only when AVX is supported and the
  operation is \<^verbatim>\<open>simd_optimize\<close>, and then the buffer it returns is the result of the
  vector loop run over the whole matrix: the vector path did execute. With AVX supported,
  a \<^verbatim>\<open>simd_optimize\<close> request on a buffer that fits sets the flag.
\<close>

theorem avx_used_monotonic:
  "(avx_used (metrics (processor w))
      \<longrightarrow> avxUsed (fst (ImageProcessor_GetMetrics (processor (invoke_all cv w calls))))) \<and>
   (\<not> avx_used (metrics p) \<and> avx_used (metrics (snd (ImageProcessor_ProcessImage cv p info t)))
      \<longrightarrow> avx_supported p \<and> Utf8Value (info ! 1) = ''simd_optimize'' \<and>
          fst (ImageProcessor_ProcessImage cv p info t)
            = Inr (vectorizedColorConversion_loop
                     (data (inputMat_of cv (Buffer_Data (info ! 0)))) (256 * 256 * 3) 0)) \<and>
   (avx_supported p \<and> length b \<le> 256 * 256 * 3
      \<longrightarrow> avx_used (metrics (snd (ImageProcessor_ProcessImage cv p
                                       [JsBuffer b, JsString ''simd_optimize''] t))))"
proof (intro conjI impI)
  show "avxUsed (fst (ImageProcessor_GetMetrics (processor (invoke_all cv w calls))))"
    if "avx_used (metrics (processor w))"
    using invoke_all_avx_used[OF that, of cv calls] by (simp only: GetMetrics_fields)
next
  assume a: "\<not> avx_used (metrics p) \<and> avx_used (metrics (snd (ImageProcessor_ProcessImage cv p info t)))"
  note f = flag_set_by_vector_path[of p cv info t]
  show "avx_supported p" using f a by blast
  show "Utf8Value (info ! 1) = ''simd_optimize''" using f a by blast
  show "fst (ImageProcessor_ProcessImage cv p info t)
            = Inr (vectorizedColorConversion_loop
                     (data (inputMat_of cv (Buffer_Data (info ! 0)))) (256 * 256 * 3) 0)"
    using f a by simp
next
  assume a: "avx_supported p \<and> length b \<le> 256 * 256 * 3"
  then have l: "length b \<le> 196608" by simp
  obtain out where "ImageProcessor_ProcessImage cv p [JsBuffer b, JsString ''simd_optimize''] t
     = (Inr out, ProcessImage_update_metrics p ''simd_optimize'' t)"
    using ProcessImage_completes[OF l, of "''simd_optimize''" cv p "[]" t] by auto
  then show "avx_used (metrics (snd (ImageProcessor_ProcessImage cv p
                                       [JsBuffer b, JsString ''simd_optimize''] t)))"
    using a by (simp add: update_metrics_fields)
qed

theorem avx_used_monotonic_witness:
  "\<not> avx_used (metrics (ImageProcessor_new 0x10000000)) \<and>
   avx_used (metrics (snd (ImageProcessor_ProcessImage opencv_example (ImageProcessor_new 0x10000000)
                            [JsBuffer [], JsString ''simd_optimize''] 1))) \<and>
   fst (ImageProcessor_ProcessImage opencv_example (ImageProcessor_new 0x10000000)
          [JsBuffer [], JsString ''simd_optimize''] 1)
     = Inr (vectorizedColorConversion_loop (replicate 196608 0) 196608 0) \<and>
   avxUsed (fst (ImageProcessor_GetMetrics (processor (invoke_all opencv_example
      \<lparr>processor = snd (ImageProcessor_ProcessImage opencv_example (ImageProcessor_new 0x10000000)
                           [JsBuffer [], JsString ''simd_optimize''] 1),
       js_heap = []\<rparr>
      [CallProcessImage [JsBuffer [], JsString ''noop''] 2]))))"
proof -
  let ?p = "ImageProcessor_new 0x10000000"
  let ?info = "[JsBuffer [], JsString ''simd_optimize'']"
  let ?p' = "snd (ImageProcessor_ProcessImage opencv_example ?p ?info 1)"
  let ?w = "\<lparr>processor = ?p', js_heap = []\<rparr>"
  note t = avx_used_monotonic[of ?w opencv_example "[CallProcessImage [JsBuffer [], JsString ''noop''] 2]"
      ?p ?info 1 "[]"]
  have n: "\<not> avx_used (metrics ?p)" by (rule avx_used_new)
  have u: "avx_used (metrics ?p')" using t avx_bit(1) by simp
  have d: "data (inputMat_of opencv_example []) = replicate 196608 0"
    by (simp add: inputMat_of_def fresh_example)
  have r: "fst (ImageProcessor_ProcessImage opencv_example ?p ?info 1)
     = Inr (vectorizedColorConversion_loop (replicate 196608 0) 196608 0)"
    using t n u by (simp add: d)
  have "avxUsed (fst (ImageProcessor_GetMetrics (processor (invoke_all opencv_example ?w
      [CallProcessImage [JsBuffer [], JsString ''noop''] 2]))))"
    using t u by simp
  then show ?thesis using n u r by blast
qed

text \<open>
  C7. \<^verbatim>\<open>GetMetrics\<close> changes nothing: in the binding, after any calls on a new addon, the
  processor after \<^verbatim>\<open>GetMetrics\<close> is the processor before it; in the service the metrics are
  returned as they were. The snapshot is a copy of its own: the object the binding returns
  sits at a fresh place of the JavaScript heap, and after any later calls that place still
  holds the snapshot of the state in which it was taken; the response the service filled
  is what it was after any later requests (none of which is a \<^verbatim>\<open>GetMetrics\<close> into the same
  response object).
\<close>

theorem getMetrics_read_only:
  "snd (ImageProcessor_GetMetrics (processor (invoke_all cv (addon_new ecx) calls)))
     = processor (invoke_all cv (addon_new ecx) calls) \<and>
   fst (invoke cv w CallGetMetrics) = Inr (length (js_heap w)) \<and>
   js_heap (invoke_all cv (snd (invoke cv w CallGetMetrics)) later) ! length (js_heap w)
     = MetricsObjectOf (fst (ImageProcessor_GetMetrics (processor w))) \<and>
   snd (ImageServiceImpl_GetMetrics m response) = m \<and>
   service_metrics (serve s (RpcGetMetrics h)) = service_metrics s \<and>
   (RpcGetMetrics h \<notin> set rpcs \<longrightarrow>
      metrics_responses (serve_all (serve s (RpcGetMetrics h)) rpcs) h
        = fst (ImageServiceImpl_GetMetrics (service_metrics s) (metrics_responses s h)))"
proof (intro conjI impI)
  have "avg_tracked (metrics (processor (addon_new ecx)))"
    by (simp add: addon_new_def tracked_new)
  then have "avg_tracked (metrics (processor (invoke_all cv (addon_new ecx) calls)))"
    by (rule tracked_invoke_all)
  then show "snd (ImageProcessor_GetMetrics (processor (invoke_all cv (addon_new ecx) calls)))
     = processor (invoke_all cv (addon_new ecx) calls)"
    by (rule GetMetrics_tracked)
  show "fst (invoke cv w CallGetMetrics) = Inr (length (js_heap w))"
    by (simp only: invoke_GetMetrics fst_conv)
  show "js_heap (invoke_all cv (snd (invoke cv w CallGetMetrics)) later) ! length (js_heap w)
     = MetricsObjectOf (fst (ImageProcessor_GetMetrics (processor w)))"
    by (rule snapshot_kept)
  show "snd (ImageServiceImpl_GetMetrics m response) = m"
    by (simp add: ImageServiceImpl_GetMetrics_def)
  show "service_metrics (serve s (RpcGetMetrics h)) = service_metrics s"
    by (rule serve_GetMetrics)
  show "metrics_responses (serve_all (serve s (RpcGetMetrics h)) rpcs) h
        = fst (ImageServiceImpl_GetMetrics (service_metrics s) (metrics_responses s h))"
    if "RpcGetMetrics h \<notin> set rpcs"
    using serve_all_other[OF that] serve_GetMetrics(1) by simp
qed

theorem getMetrics_read_only_witness:
  "snd (ImageProcessor_GetMetrics (processor (invoke_all opencv_example (addon_new 0)
          [CallProcessImage [JsBuffer [1, 2, 3], JsString ''invert''] 5])))
     = processor (invoke_all opencv_example (addon_new 0)
          [CallProcessImage [JsBuffer [1, 2, 3], JsString ''invert''] 5]) \<and>
   js_heap (invoke_all opencv_example (snd (invoke opencv_example (addon_new 0) CallGetMetrics))
              [CallProcessImage [JsBuffer [1, 2, 3], JsString ''invert''] 5]) ! 0
     = MetricsObjectOf (fst (ImageProcessor_GetMetrics (ImageProcessor_new 0))) \<and>
   metrics_responses
      (serve_all (serve server_new (RpcGetMetrics 0))
         [RpcProcessImage \<lparr>request_image_data = [1, 2, 3], request_operation = ''invert''\<rparr> 0 5]) 0
     = fst (ImageServiceImpl_GetMetrics ServiceMetrics_init MetricsResponse_empty)"
proof -
  let ?calls = "[CallProcessImage [JsBuffer [1, 2, 3], JsString ''invert''] 5]"
  let ?rpcs = "[RpcProcessImage \<lparr>request_image_data = [1, 2, 3], request_operation = ''invert''\<rparr> 0 5]"
  note t = getMetrics_read_only[of opencv_example 0 ?calls "addon_new 0" ?calls
      ServiceMetrics_init MetricsResponse_empty server_new 0 ?rpcs]
  have h: "RpcGetMetrics 0 \<notin> set ?rpcs" by simp
  have a: "js_heap (addon_new 0) = []" "processor (addon_new 0) = ImageProcessor_new 0"
    by (simp_all add: addon_new_def)
  have s: "service_metrics server_new = ServiceMetrics_init"
    "metrics_responses server_new 0 = MetricsResponse_empty"
    by (simp_all add: server_new_def)
  have 1: "snd (ImageProcessor_GetMetrics (processor (invoke_all opencv_example (addon_new 0) ?calls)))
     = processor (invoke_all opencv_example (addon_new 0) ?calls)"
    using t by blast
  have 2: "js_heap (invoke_all opencv_example (snd (invoke opencv_example (addon_new 0) CallGetMetrics)) ?calls)
            ! length (js_heap (addon_new 0))
     = MetricsObjectOf (fst (ImageProcessor_GetMetrics (processor (addon_new 0))))"
    using t by blast
  have 3: "metrics_responses (serve_all (serve server_new (RpcGetMetrics 0)) ?rpcs) 0
     = fst (ImageServiceImpl_GetMetrics (service_metrics server_new) (metrics_responses server_new 0))"
    using t h by blast
  show ?thesis using 1 2 3 unfolding a s by simp
qed

text \<open>
  C8 (as the code has it). On pixels that are all (100,100,100) the \<^verbatim>\<open>grayscale\<close> of the
  gRPC service returns the buffer as it is, whatever the number of pixels: the mean of
  equal channels is the channel. The \<^verbatim>\<open>grayscale\<close> of the binding, given the 256 * 256
  pixels of its geometry, returns one byte per pixel, the library's luma of (100,100,100):
  a single-channel buffer of 256 * 256 bytes.
\<close>

theorem grayscale_uniform_pixels:
  "fst (ImageServiceImpl_processImageData (concat (replicate n [100, 100, 100])) ''grayscale'')
     = concat (replicate n [100, 100, 100]) \<and>
   ImageProcessor_processImageData cv p (concat (replicate (256 * 256) [100, 100, 100])) ''grayscale''
     = Inr (replicate (256 * 256) (bgr2gray cv 100 100 100), [])"
proof
  show "fst (ImageServiceImpl_processImageData (concat (replicate n [100, 100, 100])) ''grayscale'')
     = concat (replicate n [100, 100, 100])"
    by (simp only: service_grayscale gray_groups_pixels)
  let ?b = "concat (replicate 65536 [100, 100, 100 :: byte])"
  have len: "length ?b = 196608" by (simp only: length_pixels)
  have le: "length ?b \<le> 196608" by (simp only: len)
  have "ImageProcessor_processImageData cv p ?b ''grayscale''
      = Inr (bgr2gray_pixels cv (data (inputMat_of cv ?b)), [])"
    by (rule processor_grayscale[OF le])
  also have "data (inputMat_of cv ?b) = ?b"
    by (rule inputMat_exact[OF len])
  also have "bgr2gray_pixels cv ?b = replicate 65536 (bgr2gray cv 100 100 100)"
    by (rule bgr2gray_pixels_uniform)
  finally show "ImageProcessor_processImageData cv p (concat (replicate (256 * 256) [100, 100, 100])) ''grayscale''
     = Inr (replicate (256 * 256) (bgr2gray cv 100 100 100), [])"
    by simp
qed

text \<open>
  C8 as stated fails in the binding: the output has one byte per pixel and a third of the
  input's length.
\<close>

theorem binding_grayscale_single_channel:
  "ImageProcessor_processImageData opencv_example (ImageProcessor_new 0)
      (concat (replicate 65536 [100, 100, 100])) ''grayscale''
     = Inr (replicate 65536 100, []) \<and>
   length (replicate 65536 (100::byte)) \<noteq> length (concat (replicate 65536 [100, 100, 100 :: byte]))"
  by (simp only: processor_grayscale_uniform bgr2gray_example length_pixels length_replicate) simp

text \<open>
  C9. The \<^verbatim>\<open>invert\<close> operation of the gRPC service maps every byte to 255 minus itself,
  and is an involution: applied twice to a buffer of any length it gives the buffer back.
\<close>

theorem invert_involution:
  "fst (ImageServiceImpl_processImageData b ''invert'') = map (\<lambda>x. 255 - x) b \<and>
   fst (ImageServiceImpl_processImageData
          (fst (ImageServiceImpl_processImageData b ''invert'')) ''invert'') = b"
  by (simp add: service_invert comp_def)

text \<open>
  C10. The \<^verbatim>\<open>grayscale\<close> operation of the gRPC service keeps the length of the buffer;
  every byte of a complete group of three becomes the floor of the mean of the group's
  three bytes; the bytes after the last complete group (\<open>length b mod 3\<close> of them) are
  returned as they are. This holds for every length, hence for those that are not a
  multiple of 3.
\<close>

theorem grayscale_partial_group:
  "length (fst (ImageServiceImpl_processImageData b ''grayscale'')) = length b \<and>
   (\<forall>k < length b div 3. \<forall>j < 3.
      fst (ImageServiceImpl_processImageData b ''grayscale'') ! (3 * k + j)
        = of_nat ((unat (b ! (3 * k)) + unat (b ! (3 * k + 1)) + unat (b ! (3 * k + 2))) div 3)) \<and>
   drop (3 * (length b div 3)) (fst (ImageServiceImpl_processImageData b ''grayscale''))
     = drop (3 * (length b div 3)) b"
  unfolding service_grayscale
  using gray_groups_nth[of _ b] gray_groups_tail[of b] length_gray_groups[of b] by blast

theorem grayscale_partial_group_witness:
  "length [10, 20, 30, 40, 50 :: byte] mod 3 \<noteq> 0 \<and>
   fst (ImageServiceImpl_processImageData [10, 20, 30, 40, 50] ''grayscale'') = [20, 20, 20, 40, 50]"
proof -
  let ?b = "[10, 20, 30, 40, 50 :: byte]"
  let ?out = "fst (ImageServiceImpl_processImageData ?b ''grayscale'')"
  note t = grayscale_partial_group[of ?b]
  have len: "length ?out = 5" using t by simp
  have g: "?out ! j = 20" if j: "j < 3" for j
  proof -
    have "(0::nat) < length ?b div 3" by simp
    with t j have "?out ! (3 * 0 + j)
        = of_nat ((unat (?b ! (3 * 0)) + unat (?b ! (3 * 0 + 1)) + unat (?b ! (3 * 0 + 2))) div 3)"
      by blast
    then show ?thesis by simp
  qed
  have tl: "drop 3 ?out = [40, 50]" using t by simp
  have "?out ! (3 + 0) = drop 3 ?out ! 0" "?out ! (3 + 1) = drop 3 ?out ! 1"
    using len by (simp_all del: One_nat_def)
  then have n34: "?out ! 3 = 40" "?out ! 4 = 50" unfolding tl by simp_all
  have "?out = [20, 20, 20, 40, 50]"
  proof (rule nth_equalityI)
    show "length ?out = length [20, 20, 20, 40, 50 :: byte]" using len by simp
  next
    fix i assume "i < length ?out"
    then have "i = 0 \<or> i = 1 \<or> i = 2 \<or> i = 3 \<or> i = 4" using len by auto
    then show "?out ! i = [20, 20, 20, 40, 50] ! i"
      using g[of 0] g[of 1] g[of 2] n34 by auto
  qed
  then show ?thesis by simp
qed

end
